theory Spec2Isabelle
  imports Main "HOL-Library.AList"
begin

section \<open>Values, cells and targets\<close>

text \<open>
  The executor of \<^verbatim>\<open>run-optimistic.ts\<close> never owns a cell: it reads and writes through
  the accessors of a \<^verbatim>\<open>WritableTarget\<close>. A cell is a slot of one store, and a target is
  one of the two shapes of \<^verbatim>\<open>types.ts\<close>, naming the slot its accessors work on. Two
  targets (of either shape) that name the same slot are the same cell: two keys of a
  Source Set may name one cell, and the status or the error target may be a source cell.
  The collaborators are taken as the data model describes them: a read returns the value
  last written to the slot, \<^verbatim>\<open>mutate\<close> has no effect besides its result or its throw, and
  the operation, when called, either throws or returns what is awaited.
\<close>

type_synonym addr = nat

datatype val = VUndefined | VNull | VNum int | VStr string | VError string

datatype OptimisticActionStatus = Idle | Pending | Success | Error

text \<open>The status values are the strings of the union type.\<close>

fun status_val :: "OptimisticActionStatus \<Rightarrow> val" where
  "status_val Idle = VStr ''idle''"
| "status_val Pending = VStr ''pending''"
| "status_val Success = VStr ''success''"
| "status_val Error = VStr ''error''"

datatype WritableTarget = WritableRef addr | CallableWritable addr

type_synonym store = "addr \<Rightarrow> val"

fun slot :: "WritableTarget \<Rightarrow> addr" where
  "slot (WritableRef a) = a"
| "slot (CallableWritable a) = a"

text \<open>\<^verbatim>\<open>typeof ref === 'function' ? ref() : ref.get()\<close>\<close>

definition readTarget :: "WritableTarget \<Rightarrow> store \<Rightarrow> val" where
  "readTarget ref h = (case ref of CallableWritable a \<Rightarrow> h a | WritableRef a \<Rightarrow> h a)"

text \<open>Both branches of \<^verbatim>\<open>writeTarget\<close> call the target's \<^verbatim>\<open>set\<close>.\<close>

definition writeTarget :: "WritableTarget \<Rightarrow> val \<Rightarrow> store \<Rightarrow> store" where
  "writeTarget ref next h =
     (case ref of CallableWritable a \<Rightarrow> h(a := next) | WritableRef a \<Rightarrow> h(a := next))"

text \<open>\<^verbatim>\<open>if (!ref) return; writeTarget(ref, next)\<close>\<close>

definition setTarget :: "WritableTarget option \<Rightarrow> val \<Rightarrow> store \<Rightarrow> store" where
  "setTarget ref next h = (case ref of None \<Rightarrow> h | Some r \<Rightarrow> writeTarget r next h)"

section \<open>Objects: source maps and snapshots\<close>

text \<open>
  A JavaScript object is an association list in the order of \<^verbatim>\<open>Object.keys\<close>; reading a
  property is \<^const>\<open>map_of\<close> (\<^const>\<open>None\<close> is \<^verbatim>\<open>undefined\<close>) and assigning one is
  \<^const>\<open>AList.update\<close>.
\<close>

type_synonym Snapshot = "(string \<times> val) list"
type_synonym SourceMap = "(string \<times> WritableTarget) list"

definition Object_keys :: "(string \<times> 'a) list \<Rightarrow> string list" where
  "Object_keys obj = map fst obj"

definition get_prop :: "Snapshot \<Rightarrow> string \<Rightarrow> val" where
  "get_prop obj key = (case map_of obj key of None \<Rightarrow> VUndefined | Some v \<Rightarrow> v)"

section \<open>The action descriptor\<close>

record OperationCtx =
  ctx_payload :: val
  ctx_optimistic :: Snapshot
  ctx_snapshot :: Snapshot

record RollbackCtx =
  rb_payload :: val
  rb_optimistic :: Snapshot
  rb_snapshot :: Snapshot
  rb_error :: val

datatype concurrency_policy = Allow | Ignore

text \<open>
  Calling \<^verbatim>\<open>operation(ctx)\<close> either throws at once or hands back something to await; what
  the awaited promise settles to arrives later, from the environment.
\<close>

datatype op_call = SyncThrow val | Suspends

datatype settled = Resolved val | Rejected val

text \<open>
  \<^verbatim>\<open>mutate\<close> returns the optimistic snapshot or throws (\<^const>\<open>Inl\<close>). A custom rollback
  handler is caller code that may read and write any cell: it maps the store to a new
  store and may throw (the second component).
\<close>

type_synonym RollbackHandler = "RollbackCtx \<Rightarrow> store \<Rightarrow> store \<times> val option"

record OptimisticOperation =
  sources :: SourceMap
  mutate :: "Snapshot \<Rightarrow> val \<Rightarrow> val + Snapshot"
  operation :: "OperationCtx \<Rightarrow> op_call"
  concurrency :: "concurrency_policy option"
  status :: "WritableTarget option"
  error :: "WritableTarget option"
  rollback :: "RollbackHandler option"

section \<open>The world: cells, in-flight bookkeeping, promises and the trace\<close>

datatype promise = PPending | PFulfilled val | PRejected val

text \<open>
  The trace records, in order, every call the executor makes on a collaborator. A status
  write is recorded with the store as it is once the write is done: what an observer of
  the status target finds when it reacts to the write.
\<close>

datatype event =
    ReadCell WritableTarget val
  | WriteCell WritableTarget val
  | WriteStatus WritableTarget OptimisticActionStatus store
  | WriteError WritableTarget val
  | Mutate Snapshot val
  | Operation OperationCtx
  | Rollback RollbackCtx

text \<open>The closure of a run at \<^verbatim>\<open>await operation(...)\<close>.\<close>

record frame =
  fr_opKey :: nat
  fr_op :: OptimisticOperation
  fr_payload :: val
  fr_optimistic :: Snapshot
  fr_snapshot :: Snapshot

text \<open>
  \<^verbatim>\<open>inFlightCount\<close> and \<^verbatim>\<open>inFlightPromise\<close> are the two module-level \<^verbatim>\<open>WeakMap\<close>s, keyed
  by the identity of the descriptor object (a number here). A promise is its index in
  \<open>promises\<close>; \<open>suspended\<close> holds the closures parked at their \<^verbatim>\<open>await\<close>.
\<close>

record world =
  cells :: store
  inFlightCount :: "nat \<rightharpoonup> int"
  inFlightPromise :: "nat \<rightharpoonup> nat"
  promises :: "promise list"
  suspended :: "nat \<rightharpoonup> frame"
  trace :: "event list"

definition init_world :: world where
  "init_world = \<lparr> cells = (\<lambda>_. VUndefined),
     inFlightCount = Map.empty, inFlightPromise = Map.empty, promises = [],
     suspended = Map.empty, trace = [] \<rparr>"

definition emit :: "event list \<Rightarrow> world \<Rightarrow> world" where
  "emit es w = w\<lparr>trace := trace w @ es\<rparr>"

definition setStatus :: "WritableTarget option \<Rightarrow> OptimisticActionStatus \<Rightarrow> world \<Rightarrow> world" where
  "setStatus statusRef next w =
     emit (case statusRef of
             None \<Rightarrow> []
           | Some r \<Rightarrow> [WriteStatus r next (setTarget statusRef (status_val next) (cells w))])
       (w\<lparr>cells := setTarget statusRef (status_val next) (cells w)\<rparr>)"

definition setError :: "WritableTarget option \<Rightarrow> val \<Rightarrow> world \<Rightarrow> world" where
  "setError errorRef next w =
     emit (case errorRef of None \<Rightarrow> [] | Some r \<Rightarrow> [WriteError r next])
       (w\<lparr>cells := setTarget errorRef next (cells w)\<rparr>)"

section \<open>runOptimistic\<close>

definition TypeError :: val where
  "TypeError = VError ''TypeError''"

definition no_source_error :: val where
  "no_source_error = VError ''runOptimistic requires at least one source to update.''"

text \<open>
  \<^verbatim>\<open>for (const key of keys) { const ref = sources[key]; snapshot[key] = readTarget(ref) }\<close>.
  Reading through a missing property is a \<^verbatim>\<open>TypeError\<close> in JavaScript; the loops return the
  thrown value, if any, next to the world reached.
\<close>

fun read_sources :: "SourceMap \<Rightarrow> string list \<Rightarrow> Snapshot \<Rightarrow> world \<Rightarrow> val option \<times> Snapshot \<times> world" where
  "read_sources src [] snap w = (None, snap, w)"
| "read_sources src (key # keys) snap w =
     (case map_of src key of
        None \<Rightarrow> (Some TypeError, snap, w)
      | Some ref \<Rightarrow>
          let v = readTarget ref (cells w)
          in read_sources src keys (AList.update key v snap) (emit [ReadCell ref v] w))"

text \<open>
  \<^verbatim>\<open>for (const key of keys) writeTarget(sources[key], values[key])\<close>: the Apply loop with
  the optimistic snapshot and the automatic rollback loop with the prior one.
\<close>

fun write_sources :: "SourceMap \<Rightarrow> string list \<Rightarrow> Snapshot \<Rightarrow> world \<Rightarrow> val option \<times> world" where
  "write_sources src [] vals w = (None, w)"
| "write_sources src (key # keys) vals w =
     (case map_of src key of
        None \<Rightarrow> (Some TypeError, w)
      | Some ref \<Rightarrow>
          write_sources src keys vals
            (emit [WriteCell ref (get_prop vals key)]
               (w\<lparr>cells := writeTarget ref (get_prop vals key) (cells w)\<rparr>)))"

text \<open>The \<^verbatim>\<open>finally\<close> block.\<close>

definition release :: "nat \<Rightarrow> world \<Rightarrow> world" where
  "release opKey w =
     (let nextActive = (case inFlightCount w opKey of None \<Rightarrow> 1 | Some n \<Rightarrow> n) - 1
      in if nextActive > 0
         then w\<lparr>inFlightCount := (inFlightCount w)(opKey \<mapsto> nextActive)\<rparr>
         else w\<lparr>inFlightCount := (inFlightCount w)(opKey := None),
                inFlightPromise := (inFlightPromise w)(opKey := None)\<rparr>)"

text \<open>The \<^verbatim>\<open>catch\<close> block: the value it throws, and the world it leaves.\<close>

definition on_failure :: "frame \<Rightarrow> val \<Rightarrow> world \<Rightarrow> val \<times> world" where
  "on_failure fr err w =
     (let op = fr_op fr;
          (thrown, w1) =
            (case rollback op of
               Some handler \<Rightarrow>
                 let ctx = \<lparr> rb_payload = fr_payload fr, rb_optimistic = fr_optimistic fr,
                             rb_snapshot = fr_snapshot fr, rb_error = err \<rparr>;
                     (h, thrown) = handler ctx (cells w)
                 in (thrown, emit [Rollback ctx] (w\<lparr>cells := h\<rparr>))
             | None \<Rightarrow>
                 write_sources (sources op) (Object_keys (sources op)) (fr_snapshot fr) w)
      in case thrown of
           Some e \<Rightarrow> (e, w1)
         | None \<Rightarrow> (err, setError (error op) err (setStatus (status op) Error w1)))"

definition settle :: "nat \<Rightarrow> promise \<Rightarrow> world \<Rightarrow> world" where
  "settle p st w = w\<lparr>promises := (promises w)[p := st]\<rparr>"

text \<open>What follows the \<^verbatim>\<open>await\<close>, up to the settlement of the run's own promise.\<close>

definition continue_run :: "nat \<Rightarrow> frame \<Rightarrow> settled \<Rightarrow> world \<Rightarrow> world" where
  "continue_run p fr outcome w =
     (case outcome of
        Resolved result \<Rightarrow>
          settle p (PFulfilled result)
            (release (fr_opKey fr) (setStatus (status (fr_op fr)) Success w))
      | Rejected err \<Rightarrow>
          let (thrown, w1) = on_failure fr err w
          in settle p (PRejected thrown) (release (fr_opKey fr) w1))"

text \<open>
  The body of the async function from its start to the point where it calls the
  operation (lines 63 to 82, and the evaluation of the argument of line 85). Either the
  promise is rejected before the \<^verbatim>\<open>try\<close> is entered, where no \<^verbatim>\<open>finally\<close> applies, or
  the body stands at the call, with the closure the continuation will need.
\<close>

datatype entered = Rejected_early nat world | At_operation nat frame OperationCtx world

definition enter_body :: "nat \<Rightarrow> OptimisticOperation \<Rightarrow> val \<Rightarrow> int \<Rightarrow> world \<Rightarrow> entered" where
  "enter_body opKey op payload active w =
     (let p = length (promises w);
          w0 = w\<lparr>promises := promises w @ [PPending],
                 inFlightCount := (inFlightCount w)(opKey \<mapsto> active + 1)\<rparr>;
          keys = Object_keys (sources op)
      in if keys = [] then Rejected_early p (settle p (PRejected no_source_error) w0)
         else
           case read_sources (sources op) keys [] w0 of
             (Some e, _, w1) \<Rightarrow> Rejected_early p (settle p (PRejected e) w1)
           | (None, snap, w1) \<Rightarrow>
               (case mutate op snap payload of
                  Inl e \<Rightarrow> Rejected_early p (settle p (PRejected e) (emit [Mutate snap payload] w1))
                | Inr opt \<Rightarrow>
                    (case write_sources (sources op) keys opt (emit [Mutate snap payload] w1) of
                       (Some e, w2) \<Rightarrow> Rejected_early p (settle p (PRejected e) w2)
                     | (None, w2) \<Rightarrow>
                         let w3 = setError (error op) VNull (setStatus (status op) Pending w2);
                             ctx = \<lparr> ctx_payload = payload, ctx_optimistic = opt,
                                     ctx_snapshot = snap \<rparr>;
                             fr = \<lparr> fr_opKey = opKey, fr_op = op, fr_payload = payload,
                                    fr_optimistic = opt, fr_snapshot = snap \<rparr>
                         in At_operation p fr ctx (emit [Operation ctx] w3))))"

text \<open>
  The call \<^verbatim>\<open>operation(...)\<close> inside the \<^verbatim>\<open>try\<close>: a throw at the call goes through the
  catch and finally blocks at once, otherwise the closure is parked at the \<^verbatim>\<open>await\<close>.
\<close>

definition call_operation :: "OptimisticOperation \<Rightarrow> nat \<Rightarrow> frame \<Rightarrow> OperationCtx \<Rightarrow> world \<Rightarrow> world" where
  "call_operation op p fr ctx w =
     (case operation op ctx of
        SyncThrow err \<Rightarrow> continue_run p fr (Rejected err) w
      | Suspends \<Rightarrow> w\<lparr>suspended := (suspended w)(p \<mapsto> fr)\<rparr>)"

definition async_body :: "nat \<Rightarrow> OptimisticOperation \<Rightarrow> val \<Rightarrow> int \<Rightarrow> world \<Rightarrow> nat \<times> world" where
  "async_body opKey op payload active w =
     (case enter_body opKey op payload active w of
        Rejected_early p w1 \<Rightarrow> (p, w1)
      | At_operation p fr ctx w4 \<Rightarrow> (p, call_operation op p fr ctx w4))"

text \<open>
  The concurrency gate: the promise an \<^verbatim>\<open>ignore\<close> call attaches to, if any
  (\<^verbatim>\<open>concurrency = 'allow'\<close> is the destructuring default).
\<close>

definition in_flight :: "nat \<Rightarrow> world \<Rightarrow> int" where
  "in_flight opKey w = (case inFlightCount w opKey of None \<Rightarrow> 0 | Some n \<Rightarrow> n)"

definition attach :: "nat \<Rightarrow> OptimisticOperation \<Rightarrow> world \<Rightarrow> nat option" where
  "attach opKey op w =
     (if (case concurrency op of None \<Rightarrow> Allow | Some c \<Rightarrow> c) = Ignore \<and> in_flight opKey w > 0
      then inFlightPromise w opKey else None)"

text \<open>The promise is stored (line 110) only when the body has returned.\<close>

definition runOptimistic :: "nat \<Rightarrow> OptimisticOperation \<Rightarrow> val \<Rightarrow> world \<Rightarrow> nat \<times> world" where
  "runOptimistic opKey op payload w =
     (case attach opKey op w of
        Some existing \<Rightarrow> (existing, w)
      | None \<Rightarrow>
          let (runPromise, w1) = async_body opKey op payload (in_flight opKey w) w
          in (runPromise, w1\<lparr>inFlightPromise := (inFlightPromise w1)(opKey \<mapsto> runPromise)\<rparr>))"

text \<open>
  The awaited promise of run \<open>p\<close> settles: the parked closure resumes. Settling a promise
  nobody is parked on changes nothing.
\<close>

definition resume :: "nat \<Rightarrow> settled \<Rightarrow> world \<Rightarrow> world" where
  "resume p outcome w =
     (case suspended w p of
        None \<Rightarrow> w
      | Some fr \<Rightarrow> continue_run p fr outcome (w\<lparr>suspended := (suspended w)(p := None)\<rparr>))"

section \<open>What a run reads, writes and emits\<close>

text \<open>
  The effect of the two loops as functions of the store, used to state what a run did:
  the snapshot the read loop builds, the store the write loop leaves, and the events
  either emits.
\<close>

fun snapshot_of :: "SourceMap \<Rightarrow> string list \<Rightarrow> Snapshot \<Rightarrow> store \<Rightarrow> Snapshot" where
  "snapshot_of src [] snap h = snap"
| "snapshot_of src (key # keys) snap h =
     (case map_of src key of
        None \<Rightarrow> snap
      | Some ref \<Rightarrow> snapshot_of src keys (AList.update key (readTarget ref h) snap) h)"

fun read_events :: "SourceMap \<Rightarrow> string list \<Rightarrow> store \<Rightarrow> event list" where
  "read_events src [] h = []"
| "read_events src (key # keys) h =
     (case map_of src key of
        None \<Rightarrow> []
      | Some ref \<Rightarrow> ReadCell ref (readTarget ref h) # read_events src keys h)"

fun written :: "SourceMap \<Rightarrow> string list \<Rightarrow> Snapshot \<Rightarrow> store \<Rightarrow> store" where
  "written src [] vals h = h"
| "written src (key # keys) vals h =
     (case map_of src key of
        None \<Rightarrow> h
      | Some ref \<Rightarrow> written src keys vals (writeTarget ref (get_prop vals key) h))"

fun write_events :: "SourceMap \<Rightarrow> string list \<Rightarrow> Snapshot \<Rightarrow> event list" where
  "write_events src [] vals = []"
| "write_events src (key # keys) vals =
     (case map_of src key of
        None \<Rightarrow> []
      | Some ref \<Rightarrow> WriteCell ref (get_prop vals key) # write_events src keys vals)"

definition prior_snapshot :: "OptimisticOperation \<Rightarrow> world \<Rightarrow> Snapshot" where
  "prior_snapshot op w = snapshot_of (sources op) (Object_keys (sources op)) [] (cells w)"

definition frame_of :: "nat \<Rightarrow> OptimisticOperation \<Rightarrow> val \<Rightarrow> Snapshot \<Rightarrow> world \<Rightarrow> frame" where
  "frame_of opKey op payload opt w =
     \<lparr> fr_opKey = opKey, fr_op = op, fr_payload = payload, fr_optimistic = opt,
       fr_snapshot = prior_snapshot op w \<rparr>"

definition ctx_of :: "OptimisticOperation \<Rightarrow> val \<Rightarrow> Snapshot \<Rightarrow> world \<Rightarrow> OperationCtx" where
  "ctx_of op payload opt w =
     \<lparr> ctx_payload = payload, ctx_optimistic = opt, ctx_snapshot = prior_snapshot op w \<rparr>"

text \<open>The store once the Apply loop is done, and once \<^verbatim>\<open>'pending'\<close> has been written.\<close>

definition applied :: "OptimisticOperation \<Rightarrow> Snapshot \<Rightarrow> store \<Rightarrow> store" where
  "applied op opt h = written (sources op) (Object_keys (sources op)) opt h"

definition pending_store :: "OptimisticOperation \<Rightarrow> Snapshot \<Rightarrow> store \<Rightarrow> store" where
  "pending_store op opt h = setTarget (status op) (status_val Pending) (applied op opt h)"

text \<open>The world at the moment \<^verbatim>\<open>operation(ctx)\<close> is called, for a run begun in \<open>w\<close>.\<close>

definition announced :: "nat \<Rightarrow> OptimisticOperation \<Rightarrow> val \<Rightarrow> Snapshot \<Rightarrow> world \<Rightarrow> world" where
  "announced opKey op payload opt w =
     w\<lparr> promises := promises w @ [PPending],
        inFlightCount := (inFlightCount w)(opKey \<mapsto> in_flight opKey w + 1),
        cells := setTarget (error op) VNull (pending_store op opt (cells w)),
        trace := trace w
          @ read_events (sources op) (Object_keys (sources op)) (cells w)
          @ [Mutate (prior_snapshot op w) payload]
          @ write_events (sources op) (Object_keys (sources op)) opt
          @ (case status op of
               None \<Rightarrow> []
             | Some s \<Rightarrow> [WriteStatus s Pending (pending_store op opt (cells w))])
          @ (case error op of None \<Rightarrow> [] | Some t \<Rightarrow> [WriteError t VNull])
          @ [Operation (ctx_of op payload opt w)] \<rparr>"

definition rollback_ctx_of :: "OptimisticOperation \<Rightarrow> val \<Rightarrow> Snapshot \<Rightarrow> world \<Rightarrow> val \<Rightarrow> RollbackCtx" where
  "rollback_ctx_of op payload opt w e =
     \<lparr> rb_payload = payload, rb_optimistic = opt, rb_snapshot = prior_snapshot op w,
       rb_error = e \<rparr>"

text \<open>
  \<open>reaches_operation\<close>: the call was not attached to an in-flight run, the Source Set is
  not empty and \<^verbatim>\<open>mutate\<close> returned \<open>opt\<close>, so the run got as far as calling the
  operation; \<open>p\<close> and \<open>w1\<close> are what \<^verbatim>\<open>runOptimistic\<close> returned and left.
  \<open>still_parked\<close>: in a later world \<open>w2\<close> the closure of run \<open>p\<close> is still waiting.
\<close>

definition reaches_operation ::
  "nat \<Rightarrow> OptimisticOperation \<Rightarrow> val \<Rightarrow> world \<Rightarrow> Snapshot \<Rightarrow> nat \<Rightarrow> world \<Rightarrow> bool" where
  "reaches_operation opKey op payload w opt p w1 \<longleftrightarrow>
     attach opKey op w = None \<and> sources op \<noteq> [] \<and>
     mutate op (prior_snapshot op w) payload = Inr opt \<and>
     runOptimistic opKey op payload w = (p, w1)"

definition still_parked :: "world \<Rightarrow> nat \<Rightarrow> world \<Rightarrow> bool" where
  "still_parked w1 p w2 \<longleftrightarrow>
     suspended w2 p = suspended w1 p \<and> length (promises w1) \<le> length (promises w2)"

text \<open>
  \<open>fails_with\<close>: the confirming operation of such a run failed with \<open>e\<close>. Either it threw
  at the call: the catch block then runs in the world \<open>w2\<close> of the call, and the run is
  over when \<^verbatim>\<open>runOptimistic\<close> returns (\<open>w3 = w1\<close>). Or the awaited promise was rejected,
  in some later world \<open>w2\<close> where the run was still parked; \<open>w3\<close> is the world the
  continuation leaves.
\<close>

definition fails_with ::
  "nat \<Rightarrow> OptimisticOperation \<Rightarrow> val \<Rightarrow> world \<Rightarrow> Snapshot \<Rightarrow> nat \<Rightarrow> world \<Rightarrow> val \<Rightarrow> world \<Rightarrow> world \<Rightarrow> bool" where
  "fails_with opKey op payload w opt p w1 e w2 w3 \<longleftrightarrow>
     reaches_operation opKey op payload w opt p w1 \<and>
     (operation op (ctx_of op payload opt w) = SyncThrow e \<and>
        w2 = announced opKey op payload opt w \<and> w3 = w1 \<or>
      operation op (ctx_of op payload opt w) = Suspends \<and>
        still_parked w1 p w2 \<and> w3 = resume p (Rejected e) w2)"

text \<open>
  What the catch block does to the store and what it emits: the rollback (the handler
  call, or one write per key with its prior value), then, when the rollback did not
  throw, the report to the status and error targets.
\<close>

definition handler_returns :: "OptimisticOperation \<Rightarrow> RollbackCtx \<Rightarrow> store \<Rightarrow> bool" where
  "handler_returns op ctx h =
     (case rollback op of None \<Rightarrow> True | Some handler \<Rightarrow> snd (handler ctx h) = None)"

definition rolled_back :: "OptimisticOperation \<Rightarrow> RollbackCtx \<Rightarrow> store \<Rightarrow> store" where
  "rolled_back op ctx h =
     (case rollback op of
        Some handler \<Rightarrow> fst (handler ctx h)
      | None \<Rightarrow> written (sources op) (Object_keys (sources op)) (rb_snapshot ctx) h)"

definition rollback_events :: "OptimisticOperation \<Rightarrow> RollbackCtx \<Rightarrow> event list" where
  "rollback_events op ctx =
     (case rollback op of
        Some handler \<Rightarrow> [Rollback ctx]
      | None \<Rightarrow> write_events (sources op) (Object_keys (sources op)) (rb_snapshot ctx))"

definition reported :: "OptimisticOperation \<Rightarrow> val \<Rightarrow> store \<Rightarrow> store" where
  "reported op e h = setTarget (error op) e (setTarget (status op) (status_val Error) h)"

definition report_events :: "OptimisticOperation \<Rightarrow> val \<Rightarrow> store \<Rightarrow> event list" where
  "report_events op e h =
     (case status op of
        None \<Rightarrow> []
      | Some s \<Rightarrow> [WriteStatus s Error (setTarget (status op) (status_val Error) h)])
     @ (case error op of None \<Rightarrow> [] | Some t \<Rightarrow> [WriteError t e])"

text \<open>The cells that are status or error target of a descriptor.\<close>

definition target_slots :: "OptimisticOperation \<Rightarrow> addr set" where
  "target_slots op = slot ` (set_option (status op) \<union> set_option (error op))"

text \<open>What an observer finds in cell \<open>a\<close> at the first write of a given status in a trace.\<close>

fun seen_at :: "OptimisticActionStatus \<Rightarrow> addr \<Rightarrow> event list \<Rightarrow> val option" where
  "seen_at st a [] = None"
| "seen_at st a (WriteStatus r st' h # es) = (if st' = st then Some (h a) else seen_at st a es)"
| "seen_at st a (ReadCell r v # es) = seen_at st a es"
| "seen_at st a (WriteCell r v # es) = seen_at st a es"
| "seen_at st a (WriteError r v # es) = seen_at st a es"
| "seen_at st a (Mutate snap v # es) = seen_at st a es"
| "seen_at st a (Operation ctx # es) = seen_at st a es"
| "seen_at st a (Rollback ctx # es) = seen_at st a es"

text \<open>
  An event with the cells in \<open>T\<close> blanked in the store a status write carries; with
  \<open>T = UNIV\<close>, the event alone.
\<close>

definition blank :: store where
  "blank = (\<lambda>_. VUndefined)"

fun mask :: "addr set \<Rightarrow> event \<Rightarrow> event" where
  "mask T (WriteStatus r st h) = WriteStatus r st (override_on h blank T)"
| "mask T (ReadCell r v) = ReadCell r v"
| "mask T (WriteCell r v) = WriteCell r v"
| "mask T (WriteError r v) = WriteError r v"
| "mask T (Mutate snap v) = Mutate snap v"
| "mask T (Operation ctx) = Operation ctx"
| "mask T (Rollback ctx) = Rollback ctx"

section \<open>Calls and settlements in sequence\<close>

text \<open>
  A program uses the executor by calling \<^verbatim>\<open>runOptimistic\<close> and, later, by letting awaited
  operations settle, in any order. \<open>descr\<close> gives the descriptor object behind each
  identity; \<open>exec\<close> is the world such a sequence reaches from the initial one. Here every
  call is issued when the previous one has returned: a call issued from inside the
  synchronous part of another (from a setter of a cell, or from the operation before it
  returns) is not an action of \<open>exec\<close>.
\<close>

datatype action = Call nat val | Settle nat settled

fun step :: "(nat \<Rightarrow> OptimisticOperation) \<Rightarrow> world \<Rightarrow> action \<Rightarrow> world" where
  "step descr w (Call opKey payload) = snd (runOptimistic opKey (descr opKey) payload w)"
| "step descr w (Settle p outcome) = resume p outcome w"

definition exec :: "(nat \<Rightarrow> OptimisticOperation) \<Rightarrow> action list \<Rightarrow> world" where
  "exec descr acts = foldl (step descr) init_world acts"

text \<open>
  The invariant of the worlds \<open>exec\<close> reaches: counters are positive; a parked run has a
  promise of its own and a non-empty Source Set, and when its descriptor is \<^verbatim>\<open>ignore\<close>
  the bookkeeping holds a counter and the promise of that very run; the promise stored
  for a descriptor without sources is one rejected with the missing-source error.
\<close>

definition counts_positive :: "world \<Rightarrow> bool" where
  "counts_positive w \<longleftrightarrow> (\<forall>k n. inFlightCount w k = Some n \<longrightarrow> 0 < n)"

definition frames_ok :: "(nat \<Rightarrow> OptimisticOperation) \<Rightarrow> world \<Rightarrow> bool" where
  "frames_ok descr w \<longleftrightarrow>
     (\<forall>p fr. suspended w p = Some fr \<longrightarrow>
        p < length (promises w) \<and> sources (descr (fr_opKey fr)) \<noteq> [] \<and>
        (concurrency (descr (fr_opKey fr)) = Some Ignore \<longrightarrow>
           inFlightCount w (fr_opKey fr) \<noteq> None \<and> inFlightPromise w (fr_opKey fr) = Some p))"

definition empty_keys_ok :: "(nat \<Rightarrow> OptimisticOperation) \<Rightarrow> world \<Rightarrow> bool" where
  "empty_keys_ok descr w \<longleftrightarrow>
     (\<forall>k q. sources (descr k) = [] \<longrightarrow> inFlightPromise w k = Some q \<longrightarrow>
        q < length (promises w) \<and> promises w ! q = PRejected no_source_error \<and>
        suspended w q = None)"

definition inv :: "(nat \<Rightarrow> OptimisticOperation) \<Rightarrow> world \<Rightarrow> bool" where
  "inv descr w \<longleftrightarrow> counts_positive w \<and> frames_ok descr w \<and> empty_keys_ok descr w"

section \<open>Two configurations of one descriptor\<close>

text \<open>
  To compare a run of a descriptor with the run of the same descriptor without its status
  target, without its error target, or without both: the descriptor with targets
  omitted, the cells of the omitted targets, stores that agree on every other cell, the
  events that are not writes to an omitted target, and a run taken to the settlement of
  its operation in one go. A custom rollback handler is caller code that may read any
  cell; \<open>handler_blind\<close> says that what it writes to the other cells, and whether and what
  it throws, does not depend on the cells in \<open>T\<close>.
\<close>

definition omit_targets :: "bool \<Rightarrow> bool \<Rightarrow> OptimisticOperation \<Rightarrow> OptimisticOperation" where
  "omit_targets no_status no_error op =
     op\<lparr>status := (if no_status then None else status op),
        error := (if no_error then None else error op)\<rparr>"

definition omitted_slots :: "bool \<Rightarrow> bool \<Rightarrow> OptimisticOperation \<Rightarrow> addr set" where
  "omitted_slots no_status no_error op =
     (if no_status then slot ` set_option (status op) else {}) \<union>
     (if no_error then slot ` set_option (error op) else {})"

definition agree_off :: "addr set \<Rightarrow> store \<Rightarrow> store \<Rightarrow> bool" where
  "agree_off T h h' \<longleftrightarrow> (\<forall>a. a \<notin> T \<longrightarrow> h' a = h a)"

definition handler_blind :: "addr set \<Rightarrow> OptimisticOperation \<Rightarrow> bool" where
  "handler_blind T op \<longleftrightarrow>
     (\<forall>handler ctx h h'. rollback op = Some handler \<longrightarrow> agree_off T h h' \<longrightarrow>
        snd (handler ctx h') = snd (handler ctx h) \<and>
        agree_off T (fst (handler ctx h)) (fst (handler ctx h')))"

fun kept :: "bool \<Rightarrow> bool \<Rightarrow> event \<Rightarrow> bool" where
  "kept no_status no_error (WriteStatus r st h) = (\<not> no_status)"
| "kept no_status no_error (WriteError r v) = (\<not> no_error)"
| "kept no_status no_error (ReadCell r v) = True"
| "kept no_status no_error (WriteCell r v) = True"
| "kept no_status no_error (Mutate snap v) = True"
| "kept no_status no_error (Operation ctx) = True"
| "kept no_status no_error (Rollback ctx) = True"

definition emitted :: "world \<Rightarrow> world \<Rightarrow> event list" where
  "emitted w w' = drop (length (trace w)) (trace w')"

definition run_to_settlement :: "nat \<Rightarrow> OptimisticOperation \<Rightarrow> val \<Rightarrow> settled \<Rightarrow> world \<Rightarrow> nat \<times> world" where
  "run_to_settlement opKey op payload outcome w =
     (let (p, w1) = runOptimistic opKey op payload w in (p, resume p outcome w1))"

section \<open>Concrete descriptors\<close>

text \<open>
  The counter of the test suite: one source \<^verbatim>\<open>count\<close> (cell 0) holding 5, \<^verbatim>\<open>mutate\<close>
  adds the payload, a status target (cell 1) and an error target (cell 2), no custom
  rollback; \<open>counter_started\<close> is the world after \<^verbatim>\<open>run(3)\<close>. Its variants: an operation
  that throws at the call; a custom rollback handler that sets the counter to 999, one
  that throws, one that looks at the status cell; a \<^verbatim>\<open>mutate\<close> that throws; the status
  target or the error target being the \<^verbatim>\<open>count\<close> cell itself. Then a descriptor whose two
  keys name one cell, an \<^verbatim>\<open>ignore\<close> descriptor, and one without sources.
\<close>

fun add_val :: "val \<Rightarrow> val \<Rightarrow> val" where
  "add_val (VNum a) (VNum b) = VNum (a + b)"
| "add_val _ _ = VUndefined"

definition counter_op :: OptimisticOperation where
  "counter_op = \<lparr> sources = [(''count'', WritableRef 0)],
     mutate = (\<lambda>snap payload. Inr [(''count'', add_val (get_prop snap ''count'') payload)]),
     operation = (\<lambda>_. Suspends), concurrency = None,
     status = Some (WritableRef 1), error = Some (CallableWritable 2), rollback = None \<rparr>"

definition count5 :: world where
  "count5 = init_world\<lparr>cells := (\<lambda>_. VNull)(0 := VNum 5, 1 := VStr ''idle'')\<rparr>"

definition counter_started :: world where
  "counter_started = snd (runOptimistic 0 counter_op (VNum 3) count5)"


definition request_failed :: val where
  "request_failed = VError ''Request failed''"

definition ok_result :: val where
  "ok_result = VStr ''ok''"

definition sync_failing_op :: OptimisticOperation where
  "sync_failing_op = counter_op\<lparr>operation := (\<lambda>_. SyncThrow request_failed)\<rparr>"

definition sync_failed :: world where
  "sync_failed = snd (runOptimistic 0 sync_failing_op (VNum 3) count5)"

definition custom_op :: OptimisticOperation where
  "custom_op = counter_op\<lparr>rollback := Some (\<lambda>ctx h. (h(0 := VNum 999), None))\<rparr>"

definition custom_sync_op :: OptimisticOperation where
  "custom_sync_op = custom_op\<lparr>operation := (\<lambda>_. SyncThrow request_failed)\<rparr>"

definition custom_sync_failed :: world where
  "custom_sync_failed = snd (runOptimistic 0 custom_sync_op (VNum 3) count5)"

definition custom_started :: world where
  "custom_started = snd (runOptimistic 0 custom_op (VNum 3) count5)"



definition peeking_handler_op :: OptimisticOperation where
  "peeking_handler_op =
     counter_op\<lparr>rollback := Some (\<lambda>ctx h.
        (h, if h 1 = VStr ''pending'' then Some (VError ''still pending'') else None))\<rparr>"

definition throwing_op :: OptimisticOperation where
  "throwing_op = counter_op\<lparr>mutate := (\<lambda>snap payload. Inl (VError ''bad payload''))\<rparr>"

definition status_in_source_op :: OptimisticOperation where
  "status_in_source_op = counter_op\<lparr>status := Some (WritableRef 0)\<rparr>"


definition status_in_source_started :: world where
  "status_in_source_started = snd (runOptimistic 0 status_in_source_op (VNum 3) count5)"


definition custom_error_in_source_op :: OptimisticOperation where
  "custom_error_in_source_op = custom_op\<lparr>error := Some (WritableRef 0)\<rparr>"

definition custom_error_in_source_started :: world where
  "custom_error_in_source_started = snd (runOptimistic 0 custom_error_in_source_op (VNum 3) count5)"

definition alias_op :: OptimisticOperation where
  "alias_op = \<lparr> sources = [(''a'', WritableRef 0), (''b'', WritableRef 0)],
     mutate = (\<lambda>snap payload. Inr [(''a'', VNum 1), (''b'', VNum 2)]),
     operation = (\<lambda>_. Suspends), concurrency = None,
     status = None, error = None, rollback = None \<rparr>"

definition alias_status_op :: OptimisticOperation where
  "alias_status_op = alias_op\<lparr>status := Some (WritableRef 1)\<rparr>"




definition alias_status_started :: world where
  "alias_status_started = snd (runOptimistic 0 alias_status_op VNull init_world)"

definition empty_op :: OptimisticOperation where
  "empty_op = \<lparr> sources = [], mutate = (\<lambda>snap payload. Inr []),
     operation = (\<lambda>_. Suspends), concurrency = Some Ignore,
     status = Some (WritableRef 1), error = Some (WritableRef 2), rollback = None \<rparr>"

definition empty_called :: world where
  "empty_called = snd (runOptimistic 0 empty_op VNull init_world)"

lemmas run_defs = runOptimistic_def attach_def in_flight_def async_body_def enter_body_def
  call_operation_def Object_keys_def get_prop_def readTarget_def writeTarget_def setTarget_def
  setStatus_def setError_def emit_def settle_def release_def on_failure_def continue_run_def
  resume_def Let_def init_world_def prior_snapshot_def

section \<open>The loops in closed form\<close>

lemma emit_emit: "emit es (emit ds w) = emit (ds @ es) w"
  by (simp add: emit_def)

lemma emit_Nil: "emit [] w = w"
  by (simp add: emit_def)

lemma emit_fields:
  "cells (emit es w) = cells w" "inFlightCount (emit es w) = inFlightCount w"
  "inFlightPromise (emit es w) = inFlightPromise w" "promises (emit es w) = promises w"
  "suspended (emit es w) = suspended w" "trace (emit es w) = trace w @ es"
  by (simp_all add: emit_def)

lemma override_on_UNIV: "override_on h g UNIV = g"
  by (simp add: fun_eq_iff override_on_def)

lemma readTarget_slot: "readTarget ref h = h (slot ref)"
  by (cases ref) (simp_all add: readTarget_def)

lemma writeTarget_slot: "writeTarget ref v h = h(slot ref := v)"
  by (cases ref) (simp_all add: writeTarget_def)

lemma setTarget_slot:
  "setTarget ref v h a = (if a \<in> slot ` set_option ref then v else h a)"
  by (cases ref) (simp_all add: setTarget_def writeTarget_slot)

lemma keys_in_dom: "set (Object_keys src) \<subseteq> dom (map_of src)"
  by (auto simp: Object_keys_def dom_map_of_conv_image_fst)

lemma source_key_listed:
  "map_of src key = Some ref \<Longrightarrow> key \<in> set (Object_keys src)"
  by (auto simp: Object_keys_def dest: map_of_SomeD intro: rev_image_eqI)

lemma Object_keys_Nil: "Object_keys src = [] \<longleftrightarrow> src = []"
  by (simp add: Object_keys_def)

lemma read_sources_closed:
  "set keys \<subseteq> dom (map_of src) \<Longrightarrow>
   read_sources src keys snap w =
     (None, snapshot_of src keys snap (cells w), emit (read_events src keys (cells w)) w)"
proof (induction keys arbitrary: snap w)
  case Nil
  then show ?case by (simp add: emit_Nil)
next
  case (Cons key keys)
  then obtain ref where "map_of src key = Some ref" by auto
  with Cons show ?case by (simp add: emit_emit emit_fields Let_def)
qed

lemma write_sources_closed:
  "set keys \<subseteq> dom (map_of src) \<Longrightarrow>
   write_sources src keys vals w =
     (None, emit (write_events src keys vals) (w\<lparr>cells := written src keys vals (cells w)\<rparr>))"
proof (induction keys arbitrary: w)
  case Nil
  then show ?case by (simp add: emit_Nil)
next
  case (Cons key keys)
  then obtain ref where "map_of src key = Some ref" by auto
  with Cons show ?case by (simp add: emit_def)
qed



text \<open>A cell no listed key names is left alone by the write loop.\<close>

lemma written_miss:
  "\<forall>k\<in>set keys. \<forall>r. map_of src k = Some r \<longrightarrow> slot r \<noteq> a \<Longrightarrow>
   written src keys vals h a = h a"
  by (induction keys arbitrary: h) (auto simp: writeTarget_slot split: option.splits)

text \<open>A cell some listed key names ends at the value of one of the keys that name it.\<close>

lemma written_hit:
  "set keys \<subseteq> dom (map_of src) \<Longrightarrow>
   \<exists>k\<in>set keys. \<exists>r. map_of src k = Some r \<and> slot r = a \<Longrightarrow>
   \<exists>k\<in>set keys. \<exists>r. map_of src k = Some r \<and> slot r = a \<and>
      written src keys vals h a = get_prop vals k"
proof (induction keys arbitrary: h)
  case Nil
  then show ?case by simp
next
  case (Cons key keys)
  then obtain ref where ref: "map_of src key = Some ref" by auto
  show ?case
  proof (cases "\<exists>k\<in>set keys. \<exists>r. map_of src k = Some r \<and> slot r = a")
    case True
    from Cons.IH [OF _ True, of "writeTarget ref (get_prop vals key) h"] Cons.prems(1) ref
    show ?thesis by auto
  next
    case False
    with Cons.prems(2) ref have here: "slot ref = a" by auto
    from False have "written src keys vals h' a = h' a" for h'
      by (intro written_miss) auto
    with ref here show ?thesis by (auto simp: writeTarget_slot)
  qed
qed

lemma written_only_key:
  assumes "map_of src key = Some ref"
      and "\<forall>key' ref'. map_of src key' = Some ref' \<longrightarrow> slot ref' = slot ref \<longrightarrow> key' = key"
  shows "written src (Object_keys src) vals h (slot ref) = get_prop vals key"
proof -
  have "\<exists>k\<in>set (Object_keys src). \<exists>r. map_of src k = Some r \<and> slot r = slot ref"
    using source_key_listed [OF assms(1)] assms(1) by (intro bexI [of _ key]) auto
  from written_hit [OF keys_in_dom this, of vals h]
  obtain k r' where "map_of src k = Some r'" "slot r' = slot ref"
    and wr: "written src (Object_keys src) vals h (slot ref) = get_prop vals k"
    by blast
  with assms(2) have "k = key" by blast
  with wr show ?thesis by simp
qed


lemma write_events_cover:
  "set keys \<subseteq> dom (map_of src) \<Longrightarrow> key \<in> set keys \<Longrightarrow> map_of src key = Some ref \<Longrightarrow>
   WriteCell ref (get_prop vals key) \<in> set (write_events src keys vals)"
  by (induction keys) (auto split: option.splits)

section \<open>Effects of the steps, field by field\<close>

lemma setStatus_fields:
  "cells (setStatus s st w) = setTarget s (status_val st) (cells w)"
  "inFlightCount (setStatus s st w) = inFlightCount w"
  "inFlightPromise (setStatus s st w) = inFlightPromise w"
  "promises (setStatus s st w) = promises w"
  "suspended (setStatus s st w) = suspended w"
  "trace (setStatus s st w) = trace w @
     (case s of None \<Rightarrow> []
      | Some r \<Rightarrow> [WriteStatus r st (setTarget s (status_val st) (cells w))])"
  by (simp_all add: setStatus_def emit_def)

lemma setError_fields:
  "cells (setError t v w) = setTarget t v (cells w)"
  "inFlightCount (setError t v w) = inFlightCount w"
  "inFlightPromise (setError t v w) = inFlightPromise w"
  "promises (setError t v w) = promises w"
  "suspended (setError t v w) = suspended w"
  "trace (setError t v w) = trace w @ (case t of None \<Rightarrow> [] | Some r \<Rightarrow> [WriteError r v])"
  by (simp_all add: setError_def emit_def)

lemma release_fields:
  "cells (release k w) = cells w"
  "promises (release k w) = promises w"
  "suspended (release k w) = suspended w"
  "trace (release k w) = trace w"
  by (simp_all add: release_def Let_def)

lemma release_maps:
  "inFlightCount (release k w) =
     (if 1 < (case inFlightCount w k of None \<Rightarrow> 1 | Some n \<Rightarrow> n)
      then (inFlightCount w)(k \<mapsto> (case inFlightCount w k of None \<Rightarrow> 1 | Some n \<Rightarrow> n) - 1)
      else (inFlightCount w)(k := None))"
  "inFlightPromise (release k w) =
     (if 1 < (case inFlightCount w k of None \<Rightarrow> 1 | Some n \<Rightarrow> n)
      then inFlightPromise w else (inFlightPromise w)(k := None))"
  by (auto simp: release_def Let_def)

lemma settle_fields:
  "cells (settle p st w) = cells w"
  "inFlightCount (settle p st w) = inFlightCount w"
  "inFlightPromise (settle p st w) = inFlightPromise w"
  "promises (settle p st w) = (promises w)[p := st]"
  "suspended (settle p st w) = suspended w"
  "trace (settle p st w) = trace w"
  by (simp_all add: settle_def)

lemma frame_of_fields:
  "fr_opKey (frame_of k op payload opt w) = k"
  "fr_op (frame_of k op payload opt w) = op"
  "fr_payload (frame_of k op payload opt w) = payload"
  "fr_optimistic (frame_of k op payload opt w) = opt"
  "fr_snapshot (frame_of k op payload opt w) = prior_snapshot op w"
  by (simp_all add: frame_of_def)

lemma frame_of_opKey: "fr_opKey (frame_of k op payload opt w) = k"
  by (simp add: frame_of_def)

lemma frame_of_ctx:
  "\<lparr> rb_payload = fr_payload (frame_of k op payload opt w),
     rb_optimistic = fr_optimistic (frame_of k op payload opt w),
     rb_snapshot = fr_snapshot (frame_of k op payload opt w), rb_error = e \<rparr>
   = rollback_ctx_of op payload opt w e"
  by (simp add: frame_of_def rollback_ctx_of_def)

lemma announced_fields:
  "cells (announced k op payload opt w) = setTarget (error op) VNull (pending_store op opt (cells w))"
  "inFlightCount (announced k op payload opt w) = (inFlightCount w)(k \<mapsto> in_flight k w + 1)"
  "inFlightPromise (announced k op payload opt w) = inFlightPromise w"
  "promises (announced k op payload opt w) = promises w @ [PPending]"
  "suspended (announced k op payload opt w) = suspended w"
  by (simp_all add: announced_def)

lemma announced_trace:
  "trace (announced k op payload opt w) = trace w
     @ read_events (sources op) (Object_keys (sources op)) (cells w)
     @ [Mutate (prior_snapshot op w) payload]
     @ write_events (sources op) (Object_keys (sources op)) opt
     @ (case status op of
          None \<Rightarrow> []
        | Some s \<Rightarrow> [WriteStatus s Pending (pending_store op opt (cells w))])
     @ (case error op of None \<Rightarrow> [] | Some t \<Rightarrow> [WriteError t VNull])
     @ [Operation (ctx_of op payload opt w)]"
  by (simp add: announced_def)

text \<open>The catch block, by cases on the handler.\<close>

lemma on_failure_auto:
  "rollback (fr_op fr) = None \<Longrightarrow>
   on_failure fr err w =
     (err, setError (error (fr_op fr)) err (setStatus (status (fr_op fr)) Error
        (emit (write_events (sources (fr_op fr)) (Object_keys (sources (fr_op fr))) (fr_snapshot fr))
           (w\<lparr>cells := written (sources (fr_op fr)) (Object_keys (sources (fr_op fr)))
                           (fr_snapshot fr) (cells w)\<rparr>))))"
  by (simp add: on_failure_def Let_def write_sources_closed [OF keys_in_dom])

lemma on_failure_handler:
  "rollback (fr_op fr) = Some handler \<Longrightarrow>
   ctx = \<lparr> rb_payload = fr_payload fr, rb_optimistic = fr_optimistic fr,
           rb_snapshot = fr_snapshot fr, rb_error = err \<rparr> \<Longrightarrow>
   on_failure fr err w =
     (case snd (handler ctx (cells w)) of
        Some e \<Rightarrow> (e, emit [Rollback ctx] (w\<lparr>cells := fst (handler ctx (cells w))\<rparr>))
      | None \<Rightarrow> (err, setError (error (fr_op fr)) err (setStatus (status (fr_op fr)) Error
                   (emit [Rollback ctx] (w\<lparr>cells := fst (handler ctx (cells w))\<rparr>)))))"
  by (simp add: on_failure_def Let_def split: prod.splits option.splits)

lemma on_failure_frame:
  "promises (snd (on_failure fr err w)) = promises w"
  "suspended (snd (on_failure fr err w)) = suspended w"
  "inFlightCount (snd (on_failure fr err w)) = inFlightCount w"
  "inFlightPromise (snd (on_failure fr err w)) = inFlightPromise w"
  by (cases "rollback (fr_op fr)";
      simp add: on_failure_auto on_failure_handler setError_fields setStatus_fields emit_fields
           split: option.splits)+

lemma on_failure_effect:
  assumes "ctx = \<lparr> rb_payload = fr_payload fr, rb_optimistic = fr_optimistic fr,
                   rb_snapshot = fr_snapshot fr, rb_error = e \<rparr>"
  shows "handler_returns (fr_op fr) ctx (cells w) \<Longrightarrow> fst (on_failure fr e w) = e"
    and "cells (snd (on_failure fr e w)) =
           (if handler_returns (fr_op fr) ctx (cells w)
            then reported (fr_op fr) e (rolled_back (fr_op fr) ctx (cells w))
            else rolled_back (fr_op fr) ctx (cells w))"
    and "trace (snd (on_failure fr e w)) = trace w @ rollback_events (fr_op fr) ctx
           @ (if handler_returns (fr_op fr) ctx (cells w)
              then report_events (fr_op fr) e (rolled_back (fr_op fr) ctx (cells w)) else [])"
proof -
  show "handler_returns (fr_op fr) ctx (cells w) \<Longrightarrow> fst (on_failure fr e w) = e"
    by (cases "rollback (fr_op fr)")
       (simp_all add: handler_returns_def on_failure_auto on_failure_handler [OF _ assms])
  show "cells (snd (on_failure fr e w)) =
           (if handler_returns (fr_op fr) ctx (cells w)
            then reported (fr_op fr) e (rolled_back (fr_op fr) ctx (cells w))
            else rolled_back (fr_op fr) ctx (cells w))"
    by (cases "rollback (fr_op fr)")
       (auto simp: handler_returns_def rolled_back_def reported_def on_failure_auto
          on_failure_handler [OF _ assms] setError_fields setStatus_fields emit_fields assms
          split: option.splits)
  show "trace (snd (on_failure fr e w)) = trace w @ rollback_events (fr_op fr) ctx
           @ (if handler_returns (fr_op fr) ctx (cells w)
              then report_events (fr_op fr) e (rolled_back (fr_op fr) ctx (cells w)) else [])"
    by (cases "rollback (fr_op fr)")
       (auto simp: handler_returns_def rolled_back_def rollback_events_def report_events_def
          on_failure_auto on_failure_handler [OF _ assms] setError_fields setStatus_fields
          emit_fields assms split: option.splits)
qed

lemma continue_run_Rejected:
  "continue_run p fr (Rejected e) w =
     settle p (PRejected (fst (on_failure fr e w)))
       (release (fr_opKey fr) (snd (on_failure fr e w)))"
  by (simp add: continue_run_def split: prod.splits)

lemma continue_run_Resolved:
  "continue_run p fr (Resolved r) w =
     settle p (PFulfilled r) (release (fr_opKey fr) (setStatus (status (fr_op fr)) Success w))"
  by (simp add: continue_run_def)

lemma continue_run_promise:
  "p < length (promises w) \<Longrightarrow>
   promises (continue_run p fr outcome w) ! p =
     (case outcome of Resolved r \<Rightarrow> PFulfilled r
      | Rejected e \<Rightarrow> PRejected (fst (on_failure fr e w)))"
  by (cases outcome)
     (simp_all add: continue_run_Rejected continue_run_Resolved settle_fields release_fields
        setStatus_fields on_failure_frame)

lemma continue_run_rejected_store:
  "cells (continue_run p fr (Rejected e) w) = cells (snd (on_failure fr e w))"
  "trace (continue_run p fr (Rejected e) w) = trace (snd (on_failure fr e w))"
  by (simp_all add: continue_run_Rejected settle_fields release_fields)

section \<open>The synchronous part of a run\<close>

lemma enter_body_empty:
  "sources op = [] \<Longrightarrow>
   enter_body opKey op payload active w =
     Rejected_early (length (promises w))
       (w\<lparr>promises := promises w @ [PRejected no_source_error],
          inFlightCount := (inFlightCount w)(opKey \<mapsto> active + 1)\<rparr>)"
  by (simp add: enter_body_def Object_keys_Nil settle_def Let_def)

lemma enter_body_mutate_throws:
  "sources op \<noteq> [] \<Longrightarrow> mutate op (prior_snapshot op w) payload = Inl e \<Longrightarrow>
   enter_body opKey op payload active w =
     Rejected_early (length (promises w))
       (w\<lparr>promises := promises w @ [PRejected e],
          inFlightCount := (inFlightCount w)(opKey \<mapsto> active + 1),
          trace := trace w @ read_events (sources op) (Object_keys (sources op)) (cells w)
                 @ [Mutate (prior_snapshot op w) payload]\<rparr>)"
  by (simp add: enter_body_def Object_keys_Nil Let_def prior_snapshot_def
        read_sources_closed [OF keys_in_dom] emit_def settle_def)

text \<open>
  With sources and a \<^verbatim>\<open>mutate\<close> that returns, the body reaches the call of the operation
  in the world \<open>announced\<close>, with the closure \<open>frame_of\<close> and the argument \<open>ctx_of\<close>.
\<close>

lemma enter_body_announces:
  "sources op \<noteq> [] \<Longrightarrow> mutate op (prior_snapshot op w) payload = Inr opt \<Longrightarrow>
   enter_body opKey op payload (in_flight opKey w) w =
     At_operation (length (promises w)) (frame_of opKey op payload opt w)
       (ctx_of op payload opt w) (announced opKey op payload opt w)"
  by (simp add: enter_body_def Object_keys_Nil Let_def prior_snapshot_def frame_of_def ctx_of_def
        read_sources_closed [OF keys_in_dom] write_sources_closed [OF keys_in_dom]
        announced_def pending_store_def applied_def emit_def setStatus_def setError_def
      split: option.splits)

lemma async_body_empty:
  "sources op = [] \<Longrightarrow>
   async_body opKey op payload active w =
     (length (promises w),
      w\<lparr>promises := promises w @ [PRejected no_source_error],
        inFlightCount := (inFlightCount w)(opKey \<mapsto> active + 1)\<rparr>)"
  by (simp add: async_body_def enter_body_empty)

lemma async_body_mutate_throws:
  "sources op \<noteq> [] \<Longrightarrow> mutate op (prior_snapshot op w) payload = Inl e \<Longrightarrow>
   async_body opKey op payload active w =
     (length (promises w),
      w\<lparr>promises := promises w @ [PRejected e],
        inFlightCount := (inFlightCount w)(opKey \<mapsto> active + 1),
        trace := trace w @ read_events (sources op) (Object_keys (sources op)) (cells w)
                 @ [Mutate (prior_snapshot op w) payload]\<rparr>)"
  by (simp add: async_body_def enter_body_mutate_throws)

lemma async_body_calls_operation:
  "sources op \<noteq> [] \<Longrightarrow> mutate op (prior_snapshot op w) payload = Inr opt \<Longrightarrow>
   async_body opKey op payload (in_flight opKey w) w =
     (case operation op (ctx_of op payload opt w) of
        SyncThrow err \<Rightarrow>
          (length (promises w),
           continue_run (length (promises w)) (frame_of opKey op payload opt w) (Rejected err)
             (announced opKey op payload opt w))
      | Suspends \<Rightarrow>
          (length (promises w),
           (announced opKey op payload opt w)
             \<lparr>suspended := (suspended w)(length (promises w) \<mapsto> frame_of opKey op payload opt w)\<rparr>))"
  by (simp add: async_body_def enter_body_announces call_operation_def announced_fields
      split: op_call.splits)

lemma runOptimistic_attached:
  "attach opKey op w = Some existing \<Longrightarrow> runOptimistic opKey op payload w = (existing, w)"
  by (simp add: runOptimistic_def)

lemma runOptimistic_fresh:
  "attach opKey op w = None \<Longrightarrow>
   runOptimistic opKey op payload w =
     (fst (async_body opKey op payload (in_flight opKey w) w),
      (snd (async_body opKey op payload (in_flight opKey w) w))
        \<lparr>inFlightPromise :=
           (inFlightPromise (snd (async_body opKey op payload (in_flight opKey w) w)))
             (opKey \<mapsto> fst (async_body opKey op payload (in_flight opKey w) w))\<rparr>)"
  by (simp add: runOptimistic_def split: prod.splits)

lemma reaches_operationD:
  assumes "reaches_operation k op payload w opt p w1"
  shows "p = length (promises w)"
    and "operation op (ctx_of op payload opt w) = Suspends \<Longrightarrow>
         w1 = (announced k op payload opt w)
                \<lparr>suspended := (suspended w)(p \<mapsto> frame_of k op payload opt w),
                  inFlightPromise := (inFlightPromise w)(k \<mapsto> p)\<rparr>"
    and "operation op (ctx_of op payload opt w) = SyncThrow e \<Longrightarrow>
         w1 = (continue_run p (frame_of k op payload opt w) (Rejected e)
                 (announced k op payload opt w))
                \<lparr>inFlightPromise :=
                   (inFlightPromise (continue_run p (frame_of k op payload opt w) (Rejected e)
                      (announced k op payload opt w)))(k \<mapsto> p)\<rparr>"
proof -
  from assms have a: "attach k op w = None" and ne: "sources op \<noteq> []"
    and m: "mutate op (prior_snapshot op w) payload = Inr opt"
    and r: "runOptimistic k op payload w = (p, w1)"
    by (simp_all add: reaches_operation_def)
  note fresh = r [unfolded runOptimistic_fresh [OF a] async_body_calls_operation [OF ne m]]
  from fresh show p: "p = length (promises w)"
    by (cases "operation op (ctx_of op payload opt w)") auto
  show "w1 = (announced k op payload opt w)
                \<lparr>suspended := (suspended w)(p \<mapsto> frame_of k op payload opt w),
                  inFlightPromise := (inFlightPromise w)(k \<mapsto> p)\<rparr>"
    if "operation op (ctx_of op payload opt w) = Suspends"
    using fresh that p by (auto simp: announced_def)
  show "w1 = (continue_run p (frame_of k op payload opt w) (Rejected e)
                 (announced k op payload opt w))
                \<lparr>inFlightPromise :=
                   (inFlightPromise (continue_run p (frame_of k op payload opt w) (Rejected e)
                      (announced k op payload opt w)))(k \<mapsto> p)\<rparr>"
    if "operation op (ctx_of op payload opt w) = SyncThrow e"
    using fresh that p by auto
qed

text \<open>
  An operation that throws at the call is handled by the same catch and finally blocks,
  before \<^verbatim>\<open>runOptimistic\<close> returns. A throw of \<^verbatim>\<open>mutate\<close> is outside the \<^verbatim>\<open>try\<close>: the
  counter incremented at the start is kept, and the rejected promise is stored.
\<close>

lemma mutate_throw_keeps_in_flight_entry:
  assumes "attach k op w = None" and "sources op \<noteq> []"
      and "mutate op (prior_snapshot op w) payload = Inl e"
      and "runOptimistic k op payload w = (p, w1)"
  shows "inFlightCount w1 k = Some (in_flight k w + 1)" and "inFlightPromise w1 k = Some p"
    and "suspended w1 = suspended w"
  using assms(4)
  by (auto simp: runOptimistic_fresh [OF assms(1)] async_body_mutate_throws [OF assms(2,3)])

text \<open>A call that is not attached, path by path.\<close>

lemma fresh_call_shape:
  assumes "attach k op w = None" and "runOptimistic k op payload w = (p, w1)"
  shows "p = length (promises w) \<and> length (promises w1) = Suc (length (promises w)) \<and>
         (\<forall>q < length (promises w). promises w1 ! q = promises w ! q) \<and>
         inFlightPromise w1 = (inFlightPromise w)(k \<mapsto> p) \<and>
         ((sources op = [] \<and> promises w1 ! p = PRejected no_source_error \<and>
           suspended w1 = suspended w \<and>
           inFlightCount w1 = (inFlightCount w)(k \<mapsto> in_flight k w + 1) \<and>
           cells w1 = cells w \<and> trace w1 = trace w) \<or>
          (sources op \<noteq> [] \<and> suspended w1 = suspended w \<and>
           (inFlightCount w1 = (inFlightCount w)(k \<mapsto> in_flight k w + 1) \<or>
            inFlightCount w1 = (inFlightCount w)(k \<mapsto> in_flight k w) \<and> 0 < in_flight k w \<or>
            inFlightCount w1 = (inFlightCount w)(k := None) \<and> in_flight k w \<le> 0)) \<or>
          (sources op \<noteq> [] \<and>
           (\<exists>opt. suspended w1 = (suspended w)(p \<mapsto> frame_of k op payload opt w)) \<and>
           inFlightCount w1 = (inFlightCount w)(k \<mapsto> in_flight k w + 1)))"
proof -
  note fresh = assms(2) [unfolded runOptimistic_fresh [OF assms(1)]]
  show ?thesis
  proof (cases "sources op = []")
    case True
    with fresh show ?thesis
      by (auto simp: async_body_empty nth_append)
  next
    case ne: False
    show ?thesis
    proof (cases "mutate op (prior_snapshot op w) payload")
      case (Inl e)
      with ne fresh show ?thesis
        by (auto simp: async_body_mutate_throws nth_append)
    next
      case (Inr opt)
      note body = async_body_calls_operation [OF ne Inr, of k]
      show ?thesis
      proof (cases "operation op (ctx_of op payload opt w)")
        case (SyncThrow err)
        have "(inFlightPromise w)(k := None, k \<mapsto> p) = (inFlightPromise w)(k \<mapsto> p)"
          by simp
        with SyncThrow fresh body ne show ?thesis
          by (auto simp: continue_run_Rejected settle_fields release_fields release_maps
                on_failure_frame announced_fields nth_append nth_list_update frame_of_fields
                in_flight_def)
      next
        case Suspends
        with fresh body ne show ?thesis
          by (auto simp: announced_fields nth_append)
      qed
    qed
  qed
qed

section \<open>The continuation of a parked run\<close>

lemma resume_parked:
  "suspended w p = Some fr \<Longrightarrow>
   resume p outcome w = continue_run p fr outcome (w\<lparr>suspended := (suspended w)(p := None)\<rparr>)"
  by (simp add: resume_def)

lemma parked_frame:
  assumes "reaches_operation k op payload w opt p w1"
      and "operation op (ctx_of op payload opt w) = Suspends"
      and "still_parked w1 p w2"
  shows "suspended w2 p = Some (frame_of k op payload opt w)"
    and "p < length (promises w2)" and "p = length (promises w)"
    and "cells w1 = cells (announced k op payload opt w)"
    and "trace w1 = trace (announced k op payload opt w)"
    and "promises w1 ! p = PPending"
proof -
  note w1 = reaches_operationD(2) [OF assms(1,2)] and p = reaches_operationD(1) [OF assms(1)]
  from w1 have "suspended w1 p = Some (frame_of k op payload opt w)"
    and "length (promises w1) = Suc (length (promises w))"
    by (simp_all add: announced_fields)
  with assms(3) p show "suspended w2 p = Some (frame_of k op payload opt w)"
    and "p < length (promises w2)" and "p = length (promises w)"
    by (auto simp: still_parked_def)
  from w1 show "cells w1 = cells (announced k op payload opt w)"
    and "trace w1 = trace (announced k op payload opt w)"
    by simp_all
  from w1 p show "promises w1 ! p = PPending"
    by (simp add: announced_fields)
qed

lemma resume_resolved_fields:
  assumes "suspended w2 p = Some fr" and "p < length (promises w2)"
  shows "cells (resume p (Resolved r) w2) = setTarget (status (fr_op fr)) (status_val Success) (cells w2)"
    and "promises (resume p (Resolved r) w2) ! p = PFulfilled r"
    and "trace (resume p (Resolved r) w2) = trace w2
           @ (case status (fr_op fr) of None \<Rightarrow> []
              | Some s \<Rightarrow> [WriteStatus s Success
                   (setTarget (status (fr_op fr)) (status_val Success) (cells w2))])"
  using assms(2)
  by (simp_all add: resume_parked [OF assms(1)] continue_run_Resolved settle_fields
        release_fields setStatus_fields split: option.splits)

lemma resume_shape:
  assumes "suspended w p = Some fr"
  shows "suspended (resume p outcome w) = (suspended w)(p := None)"
    and "length (promises (resume p outcome w)) = length (promises w)"
    and "q \<noteq> p \<Longrightarrow> promises (resume p outcome w) ! q = promises w ! q"
    and "inFlightCount (resume p outcome w) = inFlightCount (release (fr_opKey fr) w)"
    and "inFlightPromise (resume p outcome w) = inFlightPromise (release (fr_opKey fr) w)"
  by (cases outcome;
      simp add: resume_parked [OF assms] continue_run_Rejected continue_run_Resolved
        settle_fields release_fields release_maps on_failure_frame setStatus_fields)+

text \<open>
  A failed confirmation, on either path: the store and the trace the catch block leaves,
  and the value the run's promise is rejected with when the rollback returned.
\<close>

lemma fails_with_effect:
  assumes "fails_with k op payload w opt p w1 e w2 w3"
      and "ctx = rollback_ctx_of op payload opt w e"
  shows "cells w3 =
           (if handler_returns op ctx (cells w2)
            then reported op e (rolled_back op ctx (cells w2))
            else rolled_back op ctx (cells w2))"
    and "trace w3 = trace w2 @ rollback_events op ctx
           @ (if handler_returns op ctx (cells w2)
              then report_events op e (rolled_back op ctx (cells w2)) else [])"
    and "handler_returns op ctx (cells w2) \<Longrightarrow> promises w3 ! p = PRejected e"
    and "p = length (promises w)"
proof -
  let ?fr = "frame_of k op payload opt w"
  from assms(1) have ro: "reaches_operation k op payload w opt p w1"
    by (simp add: fails_with_def)
  note p = reaches_operationD(1) [OF ro]
  have c: "ctx = \<lparr> rb_payload = fr_payload ?fr, rb_optimistic = fr_optimistic ?fr,
                    rb_snapshot = fr_snapshot ?fr, rb_error = e \<rparr>"
    by (simp add: assms(2) frame_of_ctx)
  note eff = on_failure_effect [OF c, unfolded frame_of_fields]
  from assms(1) consider
      (sync) "operation op (ctx_of op payload opt w) = SyncThrow e"
        "w2 = announced k op payload opt w" "w3 = w1"
    | (await) "operation op (ctx_of op payload opt w) = Suspends"
        "still_parked w1 p w2" "w3 = resume p (Rejected e) w2"
    by (auto simp: fails_with_def)
  then have "cells w3 = cells (snd (on_failure ?fr e w2)) \<and>
             trace w3 = trace (snd (on_failure ?fr e w2)) \<and>
             promises w3 ! p = PRejected (fst (on_failure ?fr e w2))"
  proof cases
    case sync
    note w1 = reaches_operationD(3) [OF ro sync(1)]
    have "p < length (promises (announced k op payload opt w))"
      by (simp add: announced_fields p)
    from continue_run_promise [OF this, of ?fr "Rejected e"]
    have "promises w1 ! p = PRejected (fst (on_failure ?fr e (announced k op payload opt w)))"
      by (subst w1) simp
    moreover have "cells w1 = cells (snd (on_failure ?fr e (announced k op payload opt w)))"
      and "trace w1 = trace (snd (on_failure ?fr e (announced k op payload opt w)))"
      by (subst w1, simp add: continue_run_rejected_store)+
    ultimately show ?thesis
      by (simp add: sync(2,3))
  next
    case await
    note pf = parked_frame [OF ro await(1,2)]
    let ?w = "w2\<lparr>suspended := (suspended w2)(p := None)\<rparr>"
    have same: "on_failure ?fr e ?w = (fst (on_failure ?fr e ?w), snd (on_failure ?fr e ?w))"
      by simp
    have "cells (snd (on_failure ?fr e ?w)) = cells (snd (on_failure ?fr e w2))"
      and "trace (snd (on_failure ?fr e ?w)) = trace (snd (on_failure ?fr e w2))"
      and "fst (on_failure ?fr e ?w) = fst (on_failure ?fr e w2)"
      by (cases "rollback op";
          simp add: on_failure_auto on_failure_handler frame_of_fields setError_fields
            setStatus_fields emit_fields split: option.splits)+
    moreover have "p < length (promises ?w)" using pf(2) by simp
    from continue_run_promise [OF this, of ?fr "Rejected e"]
    have "promises (resume p (Rejected e) w2) ! p = PRejected (fst (on_failure ?fr e ?w))"
      by (simp add: resume_parked [OF pf(1)])
    ultimately show ?thesis
      by (simp add: await(3) resume_parked [OF pf(1)] continue_run_rejected_store)
  qed
  with eff show "cells w3 =
           (if handler_returns op ctx (cells w2)
            then reported op e (rolled_back op ctx (cells w2))
            else rolled_back op ctx (cells w2))"
    and "trace w3 = trace w2 @ rollback_events op ctx
           @ (if handler_returns op ctx (cells w2)
              then report_events op e (rolled_back op ctx (cells w2)) else [])"
    and "handler_returns op ctx (cells w2) \<Longrightarrow> promises w3 ! p = PRejected e"
    by simp_all
  show "p = length (promises w)" by (rule p)
qed

section \<open>The invariant holds in every reachable world\<close>

lemma inv_init: "inv descr init_world"
  by (simp add: inv_def counts_positive_def frames_ok_def empty_keys_ok_def init_world_def)

lemma in_flight_nonneg: "counts_positive w \<Longrightarrow> 0 \<le> in_flight k w"
  by (auto simp: counts_positive_def in_flight_def split: option.splits intro: less_imp_le)

lemma in_flight_pos_iff:
  "counts_positive w \<Longrightarrow> 0 < in_flight k w \<longleftrightarrow> inFlightCount w k \<noteq> None"
  by (auto simp: counts_positive_def in_flight_def split: option.splits)

lemma counts_positive_release: "counts_positive w \<Longrightarrow> counts_positive (release k w)"
  by (auto simp: counts_positive_def release_def Let_def)

lemma inv_settle:
  assumes "inv descr w"
  shows "inv descr (resume p outcome w)"
proof (cases "suspended w p")
  case None
  with assms show ?thesis by (simp add: resume_def)
next
  case (Some fr)
  note sh = resume_shape [OF Some, where outcome = outcome]
  from assms have cp: "counts_positive w" and fo: "frames_ok descr w"
    and eo: "empty_keys_ok descr w"
    by (simp_all add: inv_def)
  have 1: "counts_positive (resume p outcome w)"
    using counts_positive_release [OF cp, of "fr_opKey fr"]
    by (simp add: counts_positive_def sh(4))
  have ne: "sources (descr (fr_opKey fr)) \<noteq> []"
    using fo Some by (auto simp: frames_ok_def)
  have 2: "frames_ok descr (resume p outcome w)"
    unfolding frames_ok_def
  proof (intro allI impI)
    fix p' fr'
    assume a: "suspended (resume p outcome w) p' = Some fr'"
    then have pp: "p' \<noteq> p" and s': "suspended w p' = Some fr'"
      by (auto simp: sh(1) split: if_splits)
    from fo s' have b: "p' < length (promises w)" "sources (descr (fr_opKey fr')) \<noteq> []"
      and i: "concurrency (descr (fr_opKey fr')) = Some Ignore \<longrightarrow>
           inFlightCount w (fr_opKey fr') \<noteq> None \<and> inFlightPromise w (fr_opKey fr') = Some p'"
      by (auto simp: frames_ok_def)
    have "fr_opKey fr' \<noteq> fr_opKey fr" if ig: "concurrency (descr (fr_opKey fr')) = Some Ignore"
    proof
      assume e: "fr_opKey fr' = fr_opKey fr"
      from i ig have "inFlightPromise w (fr_opKey fr') = Some p'" by simp
      moreover from fo Some ig e have "inFlightPromise w (fr_opKey fr) = Some p"
        by (auto simp: frames_ok_def)
      ultimately show False using e pp by simp
    qed
    with i b show "p' < length (promises (resume p outcome w)) \<and>
        sources (descr (fr_opKey fr')) \<noteq> [] \<and>
        (concurrency (descr (fr_opKey fr')) = Some Ignore \<longrightarrow>
           inFlightCount (resume p outcome w) (fr_opKey fr') \<noteq> None \<and>
           inFlightPromise (resume p outcome w) (fr_opKey fr') = Some p')"
      by (auto simp: sh release_maps)
  qed
  have 3: "empty_keys_ok descr (resume p outcome w)"
    unfolding empty_keys_ok_def
  proof (intro allI impI)
    fix k q
    assume e: "sources (descr k) = []"
      and q: "inFlightPromise (resume p outcome w) k = Some q"
    from e ne have kk: "k \<noteq> fr_opKey fr" by auto
    with q have q': "inFlightPromise w k = Some q"
      by (auto simp: sh(5) release_maps split: if_splits)
    with eo e have c: "q < length (promises w)" "promises w ! q = PRejected no_source_error"
      "suspended w q = None"
      by (auto simp: empty_keys_ok_def)
    with Some have "q \<noteq> p" by auto
    with c show "q < length (promises (resume p outcome w)) \<and>
        promises (resume p outcome w) ! q = PRejected no_source_error \<and>
        suspended (resume p outcome w) q = None"
      by (simp add: sh)
  qed
  from 1 2 3 show ?thesis by (simp add: inv_def)
qed

lemma inv_call:
  assumes "inv descr w"
  shows "inv descr (snd (runOptimistic k (descr k) payload w))"
proof (cases "attach k (descr k) w")
  case (Some existing)
  with assms show ?thesis by (simp add: runOptimistic_attached)
next
  case None
  obtain p w1 where r: "runOptimistic k (descr k) payload w = (p, w1)"
    by (cases "runOptimistic k (descr k) payload w")
  note sh = fresh_call_shape [OF None r]
  from assms have cp: "counts_positive w" and fo: "frames_ok descr w"
    and eo: "empty_keys_ok descr w"
    by (simp_all add: inv_def)
  note nn = in_flight_nonneg [OF cp, of k]
  from sh have p: "p = length (promises w)" and len: "length (promises w1) = Suc (length (promises w))"
    and old: "\<And>q. q < length (promises w) \<Longrightarrow> promises w1 ! q = promises w ! q"
    and pr: "inFlightPromise w1 = (inFlightPromise w)(k \<mapsto> p)"
    by auto
  have fresh_free: "suspended w p = None"
  proof (cases "suspended w p")
    case (Some fr)
    with fo p show ?thesis by (auto simp: frames_ok_def)
  qed simp
  have no_ignored_frame: "fr_opKey fr \<noteq> k"
    if "suspended w q = Some fr" "concurrency (descr k) = Some Ignore" for q fr
  proof
    assume e: "fr_opKey fr = k"
    with fo that have "inFlightCount w k \<noteq> None" "inFlightPromise w k = Some q"
      by (auto simp: frames_ok_def)
    with that(2) None in_flight_pos_iff [OF cp, of k] show False
      by (simp add: attach_def)
  qed
  have cnt: "inFlightCount w1 = (inFlightCount w)(k \<mapsto> in_flight k w + 1) \<or>
            inFlightCount w1 = (inFlightCount w)(k \<mapsto> in_flight k w) \<and> 0 < in_flight k w \<or>
            inFlightCount w1 = (inFlightCount w)(k := None) \<and> in_flight k w \<le> 0"
    using sh by auto
  have 1: "counts_positive w1"
    using cnt cp nn by (auto simp: counts_positive_def split: if_splits)
  have susp: "suspended w1 = suspended w \<or>
      (sources (descr k) \<noteq> [] \<and>
       (\<exists>opt. suspended w1 = (suspended w)(p \<mapsto> frame_of k (descr k) payload opt w)) \<and>
       inFlightCount w1 = (inFlightCount w)(k \<mapsto> in_flight k w + 1))"
    using sh by auto
  have 2: "frames_ok descr w1"
    unfolding frames_ok_def
  proof (intro allI impI)
    fix p' fr'
    assume a: "suspended w1 p' = Some fr'"
    show "p' < length (promises w1) \<and> sources (descr (fr_opKey fr')) \<noteq> [] \<and>
        (concurrency (descr (fr_opKey fr')) = Some Ignore \<longrightarrow>
           inFlightCount w1 (fr_opKey fr') \<noteq> None \<and> inFlightPromise w1 (fr_opKey fr') = Some p')"
    proof (cases "suspended w p' = Some fr'")
      case True
      with fo have b: "p' < length (promises w)" "sources (descr (fr_opKey fr')) \<noteq> []"
        and i: "concurrency (descr (fr_opKey fr')) = Some Ignore \<longrightarrow>
           inFlightCount w (fr_opKey fr') \<noteq> None \<and> inFlightPromise w (fr_opKey fr') = Some p'"
        by (auto simp: frames_ok_def)
      have "fr_opKey fr' \<noteq> k" if "concurrency (descr (fr_opKey fr')) = Some Ignore"
        using no_ignored_frame [OF True] that by auto
      with b i cnt show ?thesis by (auto simp: len pr)
    next
      case False
      with a susp obtain opt where
        "sources (descr k) \<noteq> []" and
        s1: "suspended w1 = (suspended w)(p \<mapsto> frame_of k (descr k) payload opt w)" and
        c1: "inFlightCount w1 = (inFlightCount w)(k \<mapsto> in_flight k w + 1)"
        by auto
      moreover from a False s1 have "p' = p" "fr' = frame_of k (descr k) payload opt w"
        by (auto split: if_splits)
      ultimately show ?thesis by (simp add: len p pr frame_of_opKey)
    qed
  qed
  have 3: "empty_keys_ok descr w1"
    unfolding empty_keys_ok_def
  proof (intro allI impI)
    fix k' q
    assume e: "sources (descr k') = []" and q: "inFlightPromise w1 k' = Some q"
    show "q < length (promises w1) \<and> promises w1 ! q = PRejected no_source_error \<and>
          suspended w1 q = None"
    proof (cases "k' = k")
      case True
      with e sh q pr fresh_free show ?thesis by (auto simp: len)
    next
      case False
      with q pr have "inFlightPromise w k' = Some q" by simp
      with eo e have c: "q < length (promises w)" "promises w ! q = PRejected no_source_error"
        "suspended w q = None"
        by (auto simp: empty_keys_ok_def)
      with susp p show ?thesis by (auto simp: len old)
    qed
  qed
  from 1 2 3 r show ?thesis by (simp add: inv_def)
qed

lemma inv_step: "inv descr w \<Longrightarrow> inv descr (step descr w a)"
  by (cases a) (simp_all add: inv_call inv_settle)

lemma inv_foldl: "inv descr w \<Longrightarrow> inv descr (foldl (step descr) w acts)"
  by (induction acts arbitrary: w) (simp_all add: inv_step)

lemma inv_exec: "inv descr (exec descr acts)"
  by (simp add: exec_def inv_foldl inv_init)

text \<open>
  A run that reached its \<^verbatim>\<open>await\<close> gives back at settlement, whatever the outcome, what it
  took: the counter is as before the call, and the stored promise is dropped when no other
  run was counted.
\<close>

lemma settlement_releases_in_flight_entry:
  assumes "reaches_operation k op payload w opt p w1"
      and "operation op (ctx_of op payload opt w) = Suspends"
      and "counts_positive w"
  shows "inFlightCount (resume p outcome w1) = inFlightCount w"
    and "inFlightCount w k = None \<Longrightarrow> inFlightPromise (resume p outcome w1) k = None"
proof -
  note w1 = reaches_operationD(2) [OF assms(1,2)]
  then have fr: "suspended w1 p = Some (frame_of k op payload opt w)"
    and c1: "inFlightCount w1 = (inFlightCount w)(k \<mapsto> in_flight k w + 1)"
    by (simp_all add: announced_fields)
  note sh = resume_shape(4,5) [OF fr, where outcome = outcome, unfolded frame_of_opKey]
  from assms(3) have pos: "\<And>n. inFlightCount w k = Some n \<Longrightarrow> 0 < n"
    by (simp add: counts_positive_def)
  show "inFlightCount (resume p outcome w1) = inFlightCount w"
    using pos by (auto simp: sh release_maps c1 in_flight_def split: option.splits)
  show "inFlightPromise (resume p outcome w1) k = None" if "inFlightCount w k = None"
    using that by (simp add: sh release_maps c1 in_flight_def)
qed

section \<open>The claims\<close>













text \<open>
  C5. The claim fails on the empty Source Set: the counter is incremented before the check and the
  throw is outside the \<^verbatim>\<open>try\<close>, so the \<^verbatim>\<open>finally\<close> never runs. After one rejected call
  nothing is parked, yet the counter stays at 1 and the rejected promise stays stored; an
  \<^verbatim>\<open>ignore\<close> descriptor answers the next call with that stale promise, and an
  \<^verbatim>\<open>allow\<close> descriptor counts up with every call.
\<close>

theorem empty_source_set_leaks_in_flight_entry:
  "promises empty_called ! 0 = PRejected no_source_error \<and>
   suspended empty_called 0 = None \<and>
   inFlightCount empty_called 0 = Some 1 \<and>
   inFlightPromise empty_called 0 = Some 0 \<and>
   runOptimistic 0 empty_op VNull empty_called = (0, empty_called) \<and>
   inFlightCount (snd (runOptimistic 1 (empty_op\<lparr>concurrency := None\<rparr>) VNull empty_called)) 1 = Some 1 \<and>
   inFlightCount (snd (runOptimistic 1 (empty_op\<lparr>concurrency := None\<rparr>) VNull
      (snd (runOptimistic 1 (empty_op\<lparr>concurrency := None\<rparr>) VNull empty_called)))) 1 = Some 2"
  by (simp add: empty_called_def run_defs empty_op_def)

text \<open>
  C6 (amended). With a status target, the trace of a run that reaches its operation is:
  the reads, the call of \<^verbatim>\<open>mutate\<close>, one cell write per key with its optimistic value,
  the write of \<^verbatim>\<open>'pending'\<close>, directly followed by the write of \<^verbatim>\<open>null\<close> to the error
  target, and the call of the operation; when the operation throws at the call, the
  rollback and the report follow at once. At the write of \<^verbatim>\<open>'pending'\<close> a cell that
  exactly one key names and that is not the status target holds the optimistic value of
  that key. When the call returns with the run parked, the error cell holds \<^verbatim>\<open>null\<close> and
  the status cell \<^verbatim>\<open>'pending'\<close> (unless it is the error cell too); the terminal status
  write comes with the continuation, as its first write after the rollback.
\<close>

theorem pending_follows_apply_and_precedes_terminal_status:
  assumes "reaches_operation opKey op payload w opt p w1"
      and "status op = Some s"
  shows "trace w1 = trace w
           @ read_events (sources op) (Object_keys (sources op)) (cells w)
           @ [Mutate (prior_snapshot op w) payload]
           @ write_events (sources op) (Object_keys (sources op)) opt
           @ [WriteStatus s Pending (pending_store op opt (cells w))]
           @ (case error op of None \<Rightarrow> [] | Some t \<Rightarrow> [WriteError t VNull])
           @ [Operation (ctx_of op payload opt w)]
           @ (case operation op (ctx_of op payload opt w) of
                Suspends \<Rightarrow> []
              | SyncThrow e \<Rightarrow>
                  rollback_events op (rollback_ctx_of op payload opt w e)
                  @ (if handler_returns op (rollback_ctx_of op payload opt w e)
                          (cells (announced opKey op payload opt w))
                     then WriteStatus s Error
                            (setTarget (status op) (status_val Error)
                               (rolled_back op (rollback_ctx_of op payload opt w e)
                                  (cells (announced opKey op payload opt w))))
                          # (case error op of None \<Rightarrow> [] | Some t \<Rightarrow> [WriteError t e])
                     else [])) \<and>
         (\<forall>key ref. map_of (sources op) key = Some ref \<longrightarrow>
            WriteCell ref (get_prop opt key)
              \<in> set (write_events (sources op) (Object_keys (sources op)) opt)) \<and>
         (\<forall>key ref. map_of (sources op) key = Some ref \<longrightarrow>
            (\<forall>key' ref'. map_of (sources op) key' = Some ref' \<longrightarrow> slot ref' = slot ref
               \<longrightarrow> key' = key) \<longrightarrow>
            slot ref \<noteq> slot s \<longrightarrow>
            pending_store op opt (cells w) (slot ref) = get_prop opt key) \<and>
         pending_store op opt (cells w) (slot s) = VStr ''pending'' \<and>
         (operation op (ctx_of op payload opt w) = Suspends \<longrightarrow>
            (\<forall>t. error op = Some t \<longrightarrow> cells w1 (slot t) = VNull) \<and>
            (slot s \<notin> slot ` set_option (error op) \<longrightarrow> cells w1 (slot s) = VStr ''pending'')) \<and>
         (operation op (ctx_of op payload opt w) = Suspends \<and> still_parked w1 p w2 \<longrightarrow>
            trace (resume p (Resolved r) w2) = trace w2
              @ [WriteStatus s Success (setTarget (status op) (status_val Success) (cells w2))] \<and>
            trace (resume p (Rejected e) w2) = trace w2
              @ rollback_events op (rollback_ctx_of op payload opt w e)
              @ (if handler_returns op (rollback_ctx_of op payload opt w e) (cells w2)
                 then WriteStatus s Error
                        (setTarget (status op) (status_val Error)
                           (rolled_back op (rollback_ctx_of op payload opt w e) (cells w2)))
                      # (case error op of None \<Rightarrow> [] | Some t \<Rightarrow> [WriteError t e])
                 else []))"
proof -
  let ?ctx = "ctx_of op payload opt w"
  have a: "trace w1 = trace w
           @ read_events (sources op) (Object_keys (sources op)) (cells w)
           @ [Mutate (prior_snapshot op w) payload]
           @ write_events (sources op) (Object_keys (sources op)) opt
           @ [WriteStatus s Pending (pending_store op opt (cells w))]
           @ (case error op of None \<Rightarrow> [] | Some t \<Rightarrow> [WriteError t VNull])
           @ [Operation (ctx_of op payload opt w)]
           @ (case operation op (ctx_of op payload opt w) of
                Suspends \<Rightarrow> []
              | SyncThrow e \<Rightarrow>
                  rollback_events op (rollback_ctx_of op payload opt w e)
                  @ (if handler_returns op (rollback_ctx_of op payload opt w e)
                          (cells (announced opKey op payload opt w))
                     then WriteStatus s Error
                            (setTarget (status op) (status_val Error)
                               (rolled_back op (rollback_ctx_of op payload opt w e)
                                  (cells (announced opKey op payload opt w))))
                          # (case error op of None \<Rightarrow> [] | Some t \<Rightarrow> [WriteError t e])
                     else []))"
  proof (cases "operation op ?ctx")
    case Suspends
    from reaches_operationD(2) [OF assms(1) Suspends] assms(2) Suspends show ?thesis
      by (simp add: announced_trace)
  next
    case (SyncThrow e')
    have f: "fails_with opKey op payload w opt p w1 e' (announced opKey op payload opt w) w1"
      using assms(1) SyncThrow by (simp add: fails_with_def)
    from fails_with_effect(2) [OF f refl] assms(2) SyncThrow show ?thesis
      by (simp add: announced_trace report_events_def)
  qed
  have b: "\<forall>key ref. map_of (sources op) key = Some ref \<longrightarrow>
            WriteCell ref (get_prop opt key)
              \<in> set (write_events (sources op) (Object_keys (sources op)) opt)"
    using write_events_cover [OF keys_in_dom source_key_listed] by blast
  have c: "\<forall>key ref. map_of (sources op) key = Some ref \<longrightarrow>
            (\<forall>key' ref'. map_of (sources op) key' = Some ref' \<longrightarrow> slot ref' = slot ref
               \<longrightarrow> key' = key) \<longrightarrow>
            slot ref \<noteq> slot s \<longrightarrow>
            pending_store op opt (cells w) (slot ref) = get_prop opt key"
  proof (intro allI impI)
    fix key ref
    assume m: "map_of (sources op) key = Some ref"
      and u: "\<forall>key' ref'. map_of (sources op) key' = Some ref' \<longrightarrow> slot ref' = slot ref
               \<longrightarrow> key' = key"
      and ns: "slot ref \<noteq> slot s"
    from written_only_key [OF m u, of opt "cells w"] ns assms(2)
    show "pending_store op opt (cells w) (slot ref) = get_prop opt key"
      by (simp add: pending_store_def applied_def setTarget_slot)
  qed
  have d: "pending_store op opt (cells w) (slot s) = VStr ''pending''"
    using assms(2) by (simp add: pending_store_def setTarget_slot)
  have e1: "operation op ?ctx = Suspends \<longrightarrow>
            (\<forall>t. error op = Some t \<longrightarrow> cells w1 (slot t) = VNull) \<and>
            (slot s \<notin> slot ` set_option (error op) \<longrightarrow> cells w1 (slot s) = VStr ''pending'')"
  proof
    assume sus: "operation op ?ctx = Suspends"
    have "still_parked w1 p w1" by (simp add: still_parked_def)
    from parked_frame(4) [OF assms(1) sus this] d
    show "(\<forall>t. error op = Some t \<longrightarrow> cells w1 (slot t) = VNull) \<and>
          (slot s \<notin> slot ` set_option (error op) \<longrightarrow> cells w1 (slot s) = VStr ''pending'')"
      by (simp add: announced_fields setTarget_slot)
  qed
  have e2: "operation op ?ctx = Suspends \<and> still_parked w1 p w2 \<longrightarrow>
            trace (resume p (Resolved r) w2) = trace w2
              @ [WriteStatus s Success (setTarget (status op) (status_val Success) (cells w2))] \<and>
            trace (resume p (Rejected e) w2) = trace w2
              @ rollback_events op (rollback_ctx_of op payload opt w e)
              @ (if handler_returns op (rollback_ctx_of op payload opt w e) (cells w2)
                 then WriteStatus s Error
                        (setTarget (status op) (status_val Error)
                           (rolled_back op (rollback_ctx_of op payload opt w e) (cells w2)))
                      # (case error op of None \<Rightarrow> [] | Some t \<Rightarrow> [WriteError t e])
                 else [])"
  proof
    assume h: "operation op ?ctx = Suspends \<and> still_parked w1 p w2"
    then have sus: "operation op ?ctx = Suspends" and sp: "still_parked w1 p w2" by simp_all
    note pf = parked_frame [OF assms(1) sus sp]
    have f: "fails_with opKey op payload w opt p w1 e w2 (resume p (Rejected e) w2)"
      using assms(1) sus sp by (simp add: fails_with_def)
    from resume_resolved_fields(3) [OF pf(1,2), of r] fails_with_effect(2) [OF f refl] assms(2)
    show "trace (resume p (Resolved r) w2) = trace w2
              @ [WriteStatus s Success (setTarget (status op) (status_val Success) (cells w2))] \<and>
            trace (resume p (Rejected e) w2) = trace w2
              @ rollback_events op (rollback_ctx_of op payload opt w e)
              @ (if handler_returns op (rollback_ctx_of op payload opt w e) (cells w2)
                 then WriteStatus s Error
                        (setTarget (status op) (status_val Error)
                           (rolled_back op (rollback_ctx_of op payload opt w e) (cells w2)))
                      # (case error op of None \<Rightarrow> [] | Some t \<Rightarrow> [WriteError t e])
                 else [])"
      by (simp add: frame_of_fields report_events_def)
  qed
  show ?thesis
    by (intro conjI) (rule a, rule b, rule c, rule d, rule e1, rule e2)
qed

theorem pending_order_witness:
  "reaches_operation 0 counter_op (VNum 3) count5 [(''count'', VNum 8)] 0 counter_started \<and>
   status counter_op = Some (WritableRef 1) \<and>
   trace counter_started =
     [ReadCell (WritableRef 0) (VNum 5), Mutate [(''count'', VNum 5)] (VNum 3),
      WriteCell (WritableRef 0) (VNum 8),
      WriteStatus (WritableRef 1) Pending (pending_store counter_op [(''count'', VNum 8)] (cells count5)),
      WriteError (CallableWritable 2) VNull,
      Operation \<lparr> ctx_payload = VNum 3, ctx_optimistic = [(''count'', VNum 8)],
                   ctx_snapshot = [(''count'', VNum 5)] \<rparr>] \<and>
   cells count5 0 = VNum 5 \<and>
   pending_store counter_op [(''count'', VNum 8)] (cells count5) 0 = VNum 8 \<and>
   pending_store counter_op [(''count'', VNum 8)] (cells count5) 1 = VStr ''pending'' \<and>
   seen_at Pending 0 (trace counter_started) = Some (VNum 8) \<and>
   cells counter_started 1 = VStr ''pending'' \<and>
   cells counter_started 2 = VNull \<and>
   still_parked counter_started 0 counter_started \<and>
   map (mask UNIV) (trace (resume 0 (Resolved ok_result) counter_started))
     = map (mask UNIV) (trace counter_started) @ [WriteStatus (WritableRef 1) Success blank] \<and>
   map (mask UNIV) (trace (resume 0 (Rejected request_failed) counter_started))
     = map (mask UNIV) (trace counter_started)
       @ [WriteCell (WritableRef 0) (VNum 5), WriteStatus (WritableRef 1) Error blank,
          WriteError (CallableWritable 2) request_failed] \<and>
   seen_at Error 0 (trace (resume 0 (Rejected request_failed) counter_started)) = Some (VNum 5) \<and>
   reaches_operation 0 sync_failing_op (VNum 3) count5 [(''count'', VNum 8)] 0 sync_failed \<and>
   map (mask UNIV) (trace sync_failed) =
     [ReadCell (WritableRef 0) (VNum 5), Mutate [(''count'', VNum 5)] (VNum 3),
      WriteCell (WritableRef 0) (VNum 8), WriteStatus (WritableRef 1) Pending blank,
      WriteError (CallableWritable 2) VNull,
      Operation \<lparr> ctx_payload = VNum 3, ctx_optimistic = [(''count'', VNum 8)],
                   ctx_snapshot = [(''count'', VNum 5)] \<rparr>,
      WriteCell (WritableRef 0) (VNum 5), WriteStatus (WritableRef 1) Error blank,
      WriteError (CallableWritable 2) request_failed] \<and>
   seen_at Pending 0 (trace sync_failed) = Some (VNum 8)"
proof -
  have s: "reaches_operation 0 counter_op (VNum 3) count5 [(''count'', VNum 8)] 0 counter_started"
    by (simp add: reaches_operation_def counter_started_def run_defs counter_op_def count5_def)
  have g: "reaches_operation 0 sync_failing_op (VNum 3) count5 [(''count'', VNum 8)] 0 sync_failed"
    by (simp add: reaches_operation_def sync_failed_def run_defs sync_failing_op_def
          counter_op_def count5_def)
  have st: "status counter_op = Some (WritableRef 1)"
    "status sync_failing_op = Some (WritableRef 1)"
    by (simp_all add: counter_op_def sync_failing_op_def)
  have k: "still_parked counter_started 0 counter_started" by (simp add: still_parked_def)
  have snap: "prior_snapshot counter_op count5 = [(''count'', VNum 5)]"
    "prior_snapshot sync_failing_op count5 = [(''count'', VNum 5)]"
    by (simp_all add: run_defs counter_op_def count5_def sync_failing_op_def)
  have ev: "read_events (sources counter_op) (Object_keys (sources counter_op)) (cells count5)
              = [ReadCell (WritableRef 0) (VNum 5)]"
      "write_events (sources counter_op) (Object_keys (sources counter_op)) [(''count'', VNum 8)]
              = [WriteCell (WritableRef 0) (VNum 8)]"
      "rollback_events counter_op (rollback_ctx_of counter_op (VNum 3) [(''count'', VNum 8)]
           count5 request_failed) = [WriteCell (WritableRef 0) (VNum 5)]"
      "handler_returns counter_op (rollback_ctx_of counter_op (VNum 3) [(''count'', VNum 8)]
           count5 request_failed) (cells counter_started)"
      "error counter_op = Some (CallableWritable 2)" "trace count5 = []"
      "operation counter_op (ctx_of counter_op (VNum 3) [(''count'', VNum 8)] count5) = Suspends"
      "ctx_of counter_op (VNum 3) [(''count'', VNum 8)] count5
         = \<lparr> ctx_payload = VNum 3, ctx_optimistic = [(''count'', VNum 8)],
              ctx_snapshot = [(''count'', VNum 5)] \<rparr>"
      "map_of (sources counter_op) ''count'' = Some (WritableRef 0)"
    by (simp_all add: run_defs counter_op_def count5_def rollback_events_def handler_returns_def
          rollback_ctx_of_def ctx_of_def)
  have ev': "read_events (sources sync_failing_op) (Object_keys (sources sync_failing_op)) (cells count5)
              = [ReadCell (WritableRef 0) (VNum 5)]"
      "write_events (sources sync_failing_op) (Object_keys (sources sync_failing_op))
           [(''count'', VNum 8)] = [WriteCell (WritableRef 0) (VNum 8)]"
      "rollback_events sync_failing_op (rollback_ctx_of sync_failing_op (VNum 3)
           [(''count'', VNum 8)] count5 request_failed) = [WriteCell (WritableRef 0) (VNum 5)]"
      "handler_returns sync_failing_op (rollback_ctx_of sync_failing_op (VNum 3)
           [(''count'', VNum 8)] count5 request_failed)
           (cells (announced 0 sync_failing_op (VNum 3) [(''count'', VNum 8)] count5))"
      "error sync_failing_op = Some (CallableWritable 2)"
      "operation sync_failing_op (ctx_of sync_failing_op (VNum 3) [(''count'', VNum 8)] count5)
         = SyncThrow request_failed"
      "ctx_of sync_failing_op (VNum 3) [(''count'', VNum 8)] count5
         = \<lparr> ctx_payload = VNum 3, ctx_optimistic = [(''count'', VNum 8)],
              ctx_snapshot = [(''count'', VNum 5)] \<rparr>"
      "pending_store sync_failing_op [(''count'', VNum 8)] (cells count5) 0 = VNum 8"
    by (simp_all add: run_defs counter_op_def count5_def rollback_events_def handler_returns_def
          rollback_ctx_of_def ctx_of_def sync_failing_op_def pending_store_def applied_def)
  have opx: "\<And>c. operation counter_op c = Suspends"
    "\<And>c. operation sync_failing_op c = SyncThrow request_failed"
    by (simp_all add: counter_op_def sync_failing_op_def)
  have u: "\<forall>key' ref'. map_of (sources counter_op) key' = Some ref' \<longrightarrow>
             slot ref' = slot (WritableRef 0) \<longrightarrow> key' = ''count''"
    by (simp add: counter_op_def)
  have ns: "slot (WritableRef 0) \<noteq> slot (WritableRef 1)" by simp
  note thm1 = pending_follows_apply_and_precedes_terminal_status
         [OF s st(1), where e = request_failed and r = ok_result and ?w2.0 = counter_started]
  note thm2 = pending_follows_apply_and_precedes_terminal_status
         [OF g st(2), where e = request_failed and r = ok_result and ?w2.0 = sync_failed]
  note rest1 = thm1 [THEN conjunct2, THEN conjunct2]
  from thm1 [THEN conjunct1] have t1: "trace counter_started =
     [ReadCell (WritableRef 0) (VNum 5), Mutate [(''count'', VNum 5)] (VNum 3),
      WriteCell (WritableRef 0) (VNum 8),
      WriteStatus (WritableRef 1) Pending (pending_store counter_op [(''count'', VNum 8)] (cells count5)),
      WriteError (CallableWritable 2) VNull,
      Operation \<lparr> ctx_payload = VNum 3, ctx_optimistic = [(''count'', VNum 8)],
                   ctx_snapshot = [(''count'', VNum 5)] \<rparr>]"
    by (simp add: snap ev opx)
  from rest1 [THEN conjunct1, rule_format, OF ev(9) u [rule_format] ns]
  have p0: "pending_store counter_op [(''count'', VNum 8)] (cells count5) 0 = VNum 8"
    by (simp add: get_prop_def)
  from rest1 [THEN conjunct2, THEN conjunct1]
  have p1: "pending_store counter_op [(''count'', VNum 8)] (cells count5) 1 = VStr ''pending''"
    by simp
  from rest1 [THEN conjunct2, THEN conjunct2, THEN conjunct1, THEN mp, OF ev(7)] ev(5)
  have c: "cells counter_started 1 = VStr ''pending''" "cells counter_started 2 = VNull"
    by simp_all
  note cont = rest1 [THEN conjunct2, THEN conjunct2, THEN conjunct2, THEN mp, OF conjI [OF ev(7) k]]
  from cont [THEN conjunct1]
  have r1: "map (mask UNIV) (trace (resume 0 (Resolved ok_result) counter_started))
     = map (mask UNIV) (trace counter_started) @ [WriteStatus (WritableRef 1) Success blank]"
    by (simp add: override_on_UNIV)
  from cont [THEN conjunct2] ev(3,4,5)
  have r2: "map (mask UNIV) (trace (resume 0 (Rejected request_failed) counter_started))
     = map (mask UNIV) (trace counter_started)
       @ [WriteCell (WritableRef 0) (VNum 5), WriteStatus (WritableRef 1) Error blank,
          WriteError (CallableWritable 2) request_failed]"
    by (simp add: override_on_UNIV)
  from cont [THEN conjunct2] ev(3,4,5) t1
  have r3: "seen_at Error 0 (trace (resume 0 (Rejected request_failed) counter_started)) = Some (VNum 5)"
    by (simp add: rolled_back_def rollback_ctx_of_def counter_op_def setTarget_slot
          Object_keys_def get_prop_def writeTarget_slot prior_snapshot_def readTarget_slot
          count5_def)
  from thm2 [THEN conjunct1] have t2: "map (mask UNIV) (trace sync_failed) =
     [ReadCell (WritableRef 0) (VNum 5), Mutate [(''count'', VNum 5)] (VNum 3),
      WriteCell (WritableRef 0) (VNum 8), WriteStatus (WritableRef 1) Pending blank,
      WriteError (CallableWritable 2) VNull,
      Operation \<lparr> ctx_payload = VNum 3, ctx_optimistic = [(''count'', VNum 8)],
                   ctx_snapshot = [(''count'', VNum 5)] \<rparr>,
      WriteCell (WritableRef 0) (VNum 5), WriteStatus (WritableRef 1) Error blank,
      WriteError (CallableWritable 2) request_failed]"
    and t3: "seen_at Pending 0 (trace sync_failed) = Some (VNum 8)"
    by (simp_all add: snap ev' ev(6) opx override_on_UNIV)
  have c5: "cells count5 0 = VNum 5" by (simp add: count5_def)
  from t1 p0 have sa: "seen_at Pending 0 (trace counter_started) = Some (VNum 8)" by simp
  from s st(1) t1 c5 p0 p1 sa c k r1 r2 r3 g t2 t3 show ?thesis by simp
qed

text \<open>
  C6 as stated fails when the status target is a cell of the Source Set: the write of
  \<^verbatim>\<open>'pending'\<close> goes into the cell the optimistic value was written to, and an observer
  reacting to it finds \<^verbatim>\<open>'pending'\<close> there, not 8. It also fails when two keys name one
  cell: the observer finds the value of key \<^verbatim>\<open>b\<close> in the cell of key \<^verbatim>\<open>a\<close>.
\<close>

theorem pending_hides_optimistic_value_counterexample:
  "status status_in_source_op = Some (WritableRef 0) \<and>
   map_of (sources status_in_source_op) ''count'' = Some (WritableRef 0) \<and>
   mutate status_in_source_op (prior_snapshot status_in_source_op count5) (VNum 3)
     = Inr [(''count'', VNum 8)] \<and>
   runOptimistic 0 status_in_source_op (VNum 3) count5 = (0, status_in_source_started) \<and>
   map (mask UNIV) (trace status_in_source_started) =
     [ReadCell (WritableRef 0) (VNum 5), Mutate [(''count'', VNum 5)] (VNum 3),
      WriteCell (WritableRef 0) (VNum 8), WriteStatus (WritableRef 0) Pending blank,
      WriteError (CallableWritable 2) VNull,
      Operation \<lparr> ctx_payload = VNum 3, ctx_optimistic = [(''count'', VNum 8)],
                   ctx_snapshot = [(''count'', VNum 5)] \<rparr>] \<and>
   seen_at Pending 0 (trace status_in_source_started) = Some (VStr ''pending'') \<and>
   status alias_status_op = Some (WritableRef 1) \<and>
   map_of (sources alias_status_op) ''a'' = Some (WritableRef 0) \<and>
   mutate alias_status_op (prior_snapshot alias_status_op init_world) VNull
     = Inr [(''a'', VNum 1), (''b'', VNum 2)] \<and>
   runOptimistic 0 alias_status_op VNull init_world = (0, alias_status_started) \<and>
   get_prop [(''a'', VNum 1), (''b'', VNum 2)] ''a'' = VNum 1 \<and>
   seen_at Pending 0 (trace alias_status_started) = Some (VNum 2)"
  by (simp add: status_in_source_started_def status_in_source_op_def alias_status_started_def
        alias_status_op_def alias_op_def run_defs counter_op_def count5_def override_on_UNIV)

text \<open>
  C7 (amended). With a custom rollback handler, a failed confirmation (a throw at the
  call, or the rejection of what was awaited) calls the handler once, with the payload,
  the optimistic snapshot, the prior snapshot and the failure value; the executor writes
  no source cell itself. When the handler returned, the report to the status and error
  targets follows, so every cell that is neither the status nor the error target is
  what the handler left.
\<close>

theorem custom_rollback_replaces_automatic_writes:
  assumes "fails_with opKey op payload w opt p w1 e w2 w3"
      and "rollback op = Some handler"
      and "ctx = \<lparr> rb_payload = payload, rb_optimistic = opt,
                   rb_snapshot = prior_snapshot op w, rb_error = e \<rparr>"
  shows "mutate op (prior_snapshot op w) payload = Inr opt \<and>
         trace w3 = trace w2 @ [Rollback ctx]
           @ (case snd (handler ctx (cells w2)) of
                Some thrown \<Rightarrow> []
              | None \<Rightarrow>
                  (case status op of
                     None \<Rightarrow> []
                   | Some s \<Rightarrow> [WriteStatus s Error
                        (setTarget (status op) (status_val Error) (fst (handler ctx (cells w2))))])
                  @ (case error op of None \<Rightarrow> [] | Some t \<Rightarrow> [WriteError t e])) \<and>
         cells w3 =
           (case snd (handler ctx (cells w2)) of
              Some thrown \<Rightarrow> fst (handler ctx (cells w2))
            | None \<Rightarrow> setTarget (error op) e
                        (setTarget (status op) (status_val Error) (fst (handler ctx (cells w2))))) \<and>
         (\<forall>a. a \<notin> target_slots op \<longrightarrow> cells w3 a = fst (handler ctx (cells w2)) a)"
proof -
  have c: "ctx = rollback_ctx_of op payload opt w e"
    by (simp add: assms(3) rollback_ctx_of_def)
  note eff = fails_with_effect [OF assms(1) c]
  from assms(1) have 1: "mutate op (prior_snapshot op w) payload = Inr opt"
    by (simp add: fails_with_def reaches_operation_def)
  from eff(2) assms(2)
  have 2: "trace w3 = trace w2 @ [Rollback ctx]
           @ (case snd (handler ctx (cells w2)) of
                Some thrown \<Rightarrow> []
              | None \<Rightarrow>
                  (case status op of
                     None \<Rightarrow> []
                   | Some s \<Rightarrow> [WriteStatus s Error
                        (setTarget (status op) (status_val Error) (fst (handler ctx (cells w2))))])
                  @ (case error op of None \<Rightarrow> [] | Some t \<Rightarrow> [WriteError t e]))"
    by (cases "snd (handler ctx (cells w2))")
       (simp_all add: rollback_events_def handler_returns_def report_events_def rolled_back_def)
  from eff(1) assms(2)
  have 3: "cells w3 =
           (case snd (handler ctx (cells w2)) of
              Some thrown \<Rightarrow> fst (handler ctx (cells w2))
            | None \<Rightarrow> setTarget (error op) e
                        (setTarget (status op) (status_val Error) (fst (handler ctx (cells w2)))))"
    by (cases "snd (handler ctx (cells w2))")
       (simp_all add: handler_returns_def reported_def rolled_back_def)
  have 4: "\<forall>a. a \<notin> target_slots op \<longrightarrow> cells w3 a = fst (handler ctx (cells w2)) a"
    by (cases "snd (handler ctx (cells w2))")
       (simp_all add: 3 setTarget_slot target_slots_def image_Un)
  show ?thesis
    by (intro conjI) (rule 1, rule 2, rule 3, rule 4)
qed

theorem custom_rollback_witness:
  "fails_with 0 custom_op (VNum 3) count5 [(''count'', VNum 8)] 0 custom_started
     request_failed custom_started (resume 0 (Rejected request_failed) custom_started) \<and>
   cells custom_started 0 = VNum 8 \<and>
   cells (resume 0 (Rejected request_failed) custom_started) 0 = VNum 999 \<and>
   map (mask UNIV) (trace (resume 0 (Rejected request_failed) custom_started))
     = map (mask UNIV) (trace custom_started)
     @ [Rollback \<lparr> rb_payload = VNum 3, rb_optimistic = [(''count'', VNum 8)],
                    rb_snapshot = [(''count'', VNum 5)], rb_error = request_failed \<rparr>,
        WriteStatus (WritableRef 1) Error blank, WriteError (CallableWritable 2) request_failed] \<and>
   fails_with 0 custom_sync_op (VNum 3) count5 [(''count'', VNum 8)] 0 custom_sync_failed
     request_failed (announced 0 custom_sync_op (VNum 3) [(''count'', VNum 8)] count5)
     custom_sync_failed \<and>
   cells (announced 0 custom_sync_op (VNum 3) [(''count'', VNum 8)] count5) 0 = VNum 8 \<and>
   cells custom_sync_failed 0 = VNum 999"
proof -
  have f: "fails_with 0 custom_op (VNum 3) count5 [(''count'', VNum 8)] 0 custom_started
     request_failed custom_started (resume 0 (Rejected request_failed) custom_started)"
    by (simp add: fails_with_def reaches_operation_def still_parked_def ctx_of_def
          custom_started_def run_defs custom_op_def counter_op_def count5_def)
  have g: "fails_with 0 custom_sync_op (VNum 3) count5 [(''count'', VNum 8)] 0 custom_sync_failed
     request_failed (announced 0 custom_sync_op (VNum 3) [(''count'', VNum 8)] count5)
     custom_sync_failed"
    by (simp add: fails_with_def reaches_operation_def ctx_of_def custom_sync_failed_def run_defs
          custom_sync_op_def custom_op_def counter_op_def count5_def)
  have c: "cells custom_started 0 = VNum 8"
    "cells (announced 0 custom_sync_op (VNum 3) [(''count'', VNum 8)] count5) 0 = VNum 8"
    by (simp_all add: run_defs counter_op_def count5_def custom_op_def custom_started_def
          custom_sync_op_def announced_def pending_store_def applied_def)
  have r: "rollback custom_op = Some (\<lambda>ctx h. (h(0 := VNum 999), None))"
    "rollback custom_sync_op = Some (\<lambda>ctx h. (h(0 := VNum 999), None))"
    by (simp_all add: custom_op_def custom_sync_op_def)
  have snap: "prior_snapshot custom_op count5 = [(''count'', VNum 5)]"
    by (simp add: run_defs counter_op_def count5_def custom_op_def)
  have o: "status custom_op = Some (WritableRef 1)" "error custom_op = Some (CallableWritable 2)"
    "0 \<notin> target_slots custom_op" "0 \<notin> target_slots custom_sync_op"
    by (simp_all add: custom_op_def counter_op_def custom_sync_op_def target_slots_def)
  note thm1 = custom_rollback_replaces_automatic_writes [OF f r(1) refl, unfolded snap]
  note thm2 = custom_rollback_replaces_automatic_writes [OF g r(2) refl]
  from thm1 [THEN conjunct2, THEN conjunct2, THEN conjunct2, rule_format, OF o(3)]
  have "cells (resume 0 (Rejected request_failed) custom_started) 0 = VNum 999"
    by simp
  moreover
  from thm1 [THEN conjunct2, THEN conjunct1] o(1,2)
  have "map (mask UNIV) (trace (resume 0 (Rejected request_failed) custom_started))
     = map (mask UNIV) (trace custom_started)
     @ [Rollback \<lparr> rb_payload = VNum 3, rb_optimistic = [(''count'', VNum 8)],
                    rb_snapshot = [(''count'', VNum 5)], rb_error = request_failed \<rparr>,
        WriteStatus (WritableRef 1) Error blank, WriteError (CallableWritable 2) request_failed]"
    by (simp add: override_on_UNIV)
  moreover
  from thm2 [THEN conjunct2, THEN conjunct2, THEN conjunct2, rule_format, OF o(4)]
  have "cells custom_sync_failed 0 = VNum 999"
    by simp
  ultimately show ?thesis using f g c by simp
qed

text \<open>
  C7 as stated fails when the error target is a cell of the Source Set: the handler sets
  the cell to 999 and returns, and the report that follows writes the failure value into
  the same cell.
\<close>

theorem report_overwrites_handler_counterexample:
  "rollback custom_error_in_source_op = Some (\<lambda>ctx h. (h(0 := VNum 999), None)) \<and>
   map_of (sources custom_error_in_source_op) ''count'' = Some (WritableRef 0) \<and>
   error custom_error_in_source_op = Some (WritableRef 0) \<and>
   runOptimistic 0 custom_error_in_source_op (VNum 3) count5 = (0, custom_error_in_source_started) \<and>
   promises custom_error_in_source_started ! 0 = PPending \<and>
   map (mask UNIV) (trace (resume 0 (Rejected request_failed) custom_error_in_source_started))
     = map (mask UNIV) (trace custom_error_in_source_started)
     @ [Rollback \<lparr> rb_payload = VNum 3, rb_optimistic = [(''count'', VNum 8)],
                    rb_snapshot = [(''count'', VNum 5)], rb_error = request_failed \<rparr>,
        WriteStatus (WritableRef 1) Error blank, WriteError (WritableRef 0) request_failed] \<and>
   seen_at Error 0 (trace (resume 0 (Rejected request_failed) custom_error_in_source_started))
     = Some (VNum 999) \<and>
   cells (resume 0 (Rejected request_failed) custom_error_in_source_started) 0 = request_failed \<and>
   request_failed \<noteq> VNum 999"
  by (simp add: custom_error_in_source_started_def custom_error_in_source_op_def custom_op_def
        run_defs counter_op_def count5_def request_failed_def override_on_UNIV)

text \<open>
  C8. In every reachable world a call for a descriptor with an empty Source Set returns a
  promise rejected with the missing-source error, and leaves the store (source, status
  and error cells alike) and the trace as they were.
\<close>

theorem empty_source_set_is_rejected_untouched:
  assumes "sources (descr k) = []"
      and "runOptimistic k (descr k) payload (exec descr acts) = (p, w1)"
  shows "promises w1 ! p = PRejected no_source_error \<and>
         cells w1 = cells (exec descr acts) \<and> trace w1 = trace (exec descr acts)"
proof (cases "attach k (descr k) (exec descr acts)")
  case None
  from fresh_call_shape [OF None assms(2)] assms(1) show ?thesis by auto
next
  case (Some existing)
  with assms(2) have e: "p = existing" "w1 = exec descr acts"
    by (simp_all add: runOptimistic_attached)
  from Some have "inFlightPromise (exec descr acts) k = Some existing"
    by (simp add: attach_def split: if_splits)
  with inv_exec [of descr acts] assms(1) e show ?thesis
    by (auto simp: inv_def empty_keys_ok_def)
qed

theorem empty_source_set_witness:
  "sources empty_op = [] \<and>
   fst (runOptimistic 0 empty_op VNull (exec (\<lambda>_. empty_op) [Call 0 VNull])) = 0 \<and>
   promises (snd (runOptimistic 0 empty_op VNull (exec (\<lambda>_. empty_op) [Call 0 VNull]))) ! 0
     = PRejected no_source_error \<and>
   cells (snd (runOptimistic 0 empty_op VNull (exec (\<lambda>_. empty_op) [Call 0 VNull])))
     = cells init_world \<and>
   trace (snd (runOptimistic 0 empty_op VNull (exec (\<lambda>_. empty_op) [Call 0 VNull]))) = []"
proof -
  have e: "sources ((\<lambda>_. empty_op) (0::nat)) = []" by (simp add: empty_op_def)
  have f: "fst (runOptimistic 0 empty_op VNull (exec (\<lambda>_. empty_op) [Call 0 VNull])) = 0"
    by (simp add: exec_def run_defs empty_op_def)
  have t: "trace (exec (\<lambda>_. empty_op) [Call 0 VNull]) = []"
    "cells (exec (\<lambda>_. empty_op) [Call 0 VNull]) = cells init_world"
    by (simp_all add: exec_def run_defs empty_op_def)
  from empty_source_set_is_rejected_untouched
         [where descr = "\<lambda>_. empty_op" and k = 0 and payload = VNull
            and acts = "[Call 0 VNull]", OF e surjective_pairing]
    e f t
  show ?thesis by simp
qed

text \<open>
  C9. When \<^verbatim>\<open>mutate\<close> throws, the promise of the call is rejected with the thrown value,
  and the call has only read: the store (source, status and error cells alike) is
  unchanged and the trace gained the reads and the call of \<^verbatim>\<open>mutate\<close>, no write.
\<close>

theorem mutate_throw_writes_nothing:
  assumes "attach opKey op w = None"
      and "sources op \<noteq> []"
      and "mutate op (prior_snapshot op w) payload = Inl e"
      and "runOptimistic opKey op payload w = (p, w1)"
  shows "promises w1 ! p = PRejected e \<and> cells w1 = cells w \<and>
         trace w1 = trace w @ read_events (sources op) (Object_keys (sources op)) (cells w)
                    @ [Mutate (prior_snapshot op w) payload]"
  using assms(4)
  by (auto simp: runOptimistic_fresh [OF assms(1)] async_body_mutate_throws [OF assms(2,3)])

theorem mutate_throw_witness:
  "attach 0 throwing_op count5 = None \<and> sources throwing_op \<noteq> [] \<and>
   mutate throwing_op (prior_snapshot throwing_op count5) (VNum 3) = Inl (VError ''bad payload'') \<and>
   fst (runOptimistic 0 throwing_op (VNum 3) count5) = 0 \<and>
   promises (snd (runOptimistic 0 throwing_op (VNum 3) count5)) ! 0 = PRejected (VError ''bad payload'') \<and>
   cells (snd (runOptimistic 0 throwing_op (VNum 3) count5)) 0 = VNum 5 \<and>
   cells (snd (runOptimistic 0 throwing_op (VNum 3) count5)) 1 = VStr ''idle'' \<and>
   cells (snd (runOptimistic 0 throwing_op (VNum 3) count5)) 2 = VNull \<and>
   trace (snd (runOptimistic 0 throwing_op (VNum 3) count5))
     = [ReadCell (WritableRef 0) (VNum 5), Mutate [(''count'', VNum 5)] (VNum 3)]"
proof -
  have a: "attach 0 throwing_op count5 = None"
    by (simp add: attach_def throwing_op_def counter_op_def)
  have n: "sources throwing_op \<noteq> []" by (simp add: throwing_op_def counter_op_def)
  have m: "mutate throwing_op (prior_snapshot throwing_op count5) (VNum 3) = Inl (VError ''bad payload'')"
    by (simp add: throwing_op_def)
  have f: "fst (runOptimistic 0 throwing_op (VNum 3) count5) = 0"
    by (simp add: run_defs throwing_op_def counter_op_def count5_def)
  have snap: "prior_snapshot throwing_op count5 = [(''count'', VNum 5)]"
    by (simp add: run_defs throwing_op_def counter_op_def count5_def)
  from mutate_throw_writes_nothing [OF a n m surjective_pairing] f
  have "promises (snd (runOptimistic 0 throwing_op (VNum 3) count5)) ! 0 = PRejected (VError ''bad payload'')"
    and "cells (snd (runOptimistic 0 throwing_op (VNum 3) count5)) 0 = VNum 5"
    and "cells (snd (runOptimistic 0 throwing_op (VNum 3) count5)) 1 = VStr ''idle''"
    and "cells (snd (runOptimistic 0 throwing_op (VNum 3) count5)) 2 = VNull"
    and "trace (snd (runOptimistic 0 throwing_op (VNum 3) count5))
           = [ReadCell (WritableRef 0) (VNum 5), Mutate [(''count'', VNum 5)] (VNum 3)]"
    by (simp_all add: snap, simp_all add: count5_def init_world_def throwing_op_def counter_op_def
          Object_keys_def readTarget_def)
  with a n m f show ?thesis by simp
qed

end
